theory Spec2Isabelle
  imports Complex_Main
begin

section \<open>JavaScript values used by the AutoMix sources\<close>

text \<open>
  The sources are \<^verbatim>\<open>js/automix-howler.js\<close> (classes \<^verbatim>\<open>AudioAnalyzer\<close>,
  \<^verbatim>\<open>CamelotWheel\<close>, \<^verbatim>\<open>AutoMixEngineHowler\<close>) and the module that follows it in the
  same source file (\<^verbatim>\<open>CAMELOT_WHEEL\<close>, \<^verbatim>\<open>checkKeyCompatibility\<close>, \<^verbatim>\<open>detectBeats\<close>,
  \<^verbatim>\<open>AutoMixEngine\<close>).

  Strings are ASCII strings. The result of \<^verbatim>\<open>parseInt\<close> is an \<open>int option\<close>,
  \<open>None\<close> standing for \<^verbatim>\<open>NaN\<close>. The two key tables are objects read by
  \<^verbatim>\<open>table[key]\<close>; they are association lists of their own properties, so a key that
  names a member of \<^verbatim>\<open>Object.prototype\<close> (such as \<^verbatim>\<open>constructor\<close>) is outside the model.
\<close>

subsection \<open>parseInt, String and padStart\<close>

definition is_space :: "char \<Rightarrow> bool" where
  "is_space c = (c \<in> set [CHR 0x20, CHR 0x09, CHR 0x0A, CHR 0x0B, CHR 0x0C, CHR 0x0D])"

definition digit_value :: "char \<Rightarrow> nat option" where
  "digit_value c =
     (let n = (of_char c :: nat) in
      if 48 \<le> n \<and> n \<le> 57 then Some (n - 48)
      else if 97 \<le> n \<and> n \<le> 122 then Some (n - 87)
      else if 65 \<le> n \<and> n \<le> 90 then Some (n - 55)
      else None)"

text \<open>The digit values of the longest prefix of digits below the radix.\<close>

fun digits_prefix :: "nat \<Rightarrow> string \<Rightarrow> nat list" where
  "digits_prefix radix [] = []"
| "digits_prefix radix (c # cs) =
     (case digit_value c of
        None \<Rightarrow> []
      | Some d \<Rightarrow> if d < radix then d # digits_prefix radix cs else [])"

definition parseInt :: "string \<Rightarrow> int option" where
  "parseInt s =
     (let s1 = dropWhile is_space s;
          neg = (s1 \<noteq> [] \<and> hd s1 = CHR ''-'');
          s2 = (if s1 \<noteq> [] \<and> (hd s1 = CHR ''-'' \<or> hd s1 = CHR ''+'') then tl s1 else s1);
          hex = (take 2 s2 = ''0x'' \<or> take 2 s2 = ''0X'');
          radix = (if hex then 16 else 10);
          s3 = (if hex then drop 2 s2 else s2);
          ds = digits_prefix radix s3
      in if ds = [] then None
         else let v = int (foldl (\<lambda>a d. a * radix + d) 0 ds)
              in Some (if neg then - v else v))"

text \<open>The decimal numeral of a natural number, most significant digit first.\<close>

fun string_of_nat :: "nat \<Rightarrow> string" where
  "string_of_nat n =
     (let lastDigit = ''0123456789'' ! (n mod 10)
      in if 10 \<le> n then string_of_nat (n div 10) @ [lastDigit] else [lastDigit])"

declare string_of_nat.simps [simp del]

text \<open>\<^verbatim>\<open>String(num)\<close> for the result of \<^verbatim>\<open>parseInt\<close> and the integers computed from it.\<close>

definition String :: "int option \<Rightarrow> string" where
  "String num =
     (case num of
        None \<Rightarrow> ''NaN''
      | Some n \<Rightarrow> if n < 0 then CHR ''-'' # string_of_nat (nat (- n)) else string_of_nat (nat n))"

definition padStart :: "string \<Rightarrow> nat \<Rightarrow> char \<Rightarrow> string" where
  "padStart s targetLength c = replicate (targetLength - length s) c @ s"

text \<open>\<^verbatim>\<open>[...new Set(xs)]\<close>: the first occurrence of every element, in order.\<close>

fun set_spread :: "'a list \<Rightarrow> 'a list \<Rightarrow> 'a list" where
  "set_spread seen [] = seen"
| "set_spread seen (x # xs) = (if x \<in> set seen then set_spread seen xs else set_spread (seen @ [x]) xs)"

section \<open>CamelotWheel (Howler engine)\<close>

definition keyToCamelot :: "(string \<times> string) list" where
  "keyToCamelot =
     [(''A-'', ''01A''), (''Bb'', ''02A''), (''B-'', ''03A''), (''C-'', ''04A''),
      (''C#'', ''05A''), (''D-'', ''06A''), (''D#'', ''07A''), (''E-'', ''08A''),
      (''F-'', ''09A''), (''F#'', ''10A''), (''G-'', ''11A''), (''Ab'', ''12A''),
      (''Am'', ''01B''), (''Bbm'', ''02B''), (''Bm'', ''03B''), (''Cm'', ''04B''),
      (''C#m'', ''05B''), (''Dm'', ''06B''), (''D#m'', ''07B''), (''Em'', ''08B''),
      (''Fm'', ''09B''), (''F#m'', ''10B''), (''Gm'', ''11B''), (''G#m'', ''12B'')]"

text \<open>
  \<^verbatim>\<open>getCompatibleKeys(camelotNumber)\<close>. \<^verbatim>\<open>NaN === 12\<close> is false and
  \<^verbatim>\<open>NaN + 1\<close> is \<^verbatim>\<open>NaN\<close>.
\<close>

definition getCompatibleKeys :: "string \<Rightarrow> string list" where
  "getCompatibleKeys camelotNumber =
     (let num = parseInt (take 2 camelotNumber);
          letter = drop 2 camelotNumber;
          plus1 = (if num = Some 12 then Some 1 else map_option (\<lambda>n. n + 1) num);
          minus1 = (if num = Some 1 then Some 12 else map_option (\<lambda>n. n - 1) num);
          otherMode = (if letter = ''A'' then ''B'' else ''A'')
      in set_spread []
           [padStart (String num) 2 (CHR ''0'') @ letter,
            padStart (String plus1) 2 (CHR ''0'') @ letter,
            padStart (String minus1) 2 (CHR ''0'') @ letter,
            padStart (String num) 2 (CHR ''0'') @ otherMode])"

text \<open>
  \<^verbatim>\<open>isCompatible(key1, key2)\<close>: a key that is not in \<^verbatim>\<open>keyToCamelot\<close> stands for
  itself (\<^verbatim>\<open>this.keyToCamelot[key1] || key1\<close>); the empty string is falsy.
\<close>

definition isCompatible :: "string \<Rightarrow> string \<Rightarrow> bool" where
  "isCompatible key1 key2 =
     (let camelot1 = (case map_of keyToCamelot key1 of Some c \<Rightarrow> c | None \<Rightarrow> key1);
          camelot2 = (case map_of keyToCamelot key2 of Some c \<Rightarrow> c | None \<Rightarrow> key2)
      in if camelot1 = [] \<or> camelot2 = [] then False
         else camelot2 \<in> set (getCompatibleKeys camelot1))"

section \<open>CAMELOT_WHEEL and checkKeyCompatibility (AutoMix module)\<close>

datatype mode_letter = A | B

record camelot_key =
  number :: int
  letter :: mode_letter
  name :: string

definition CAMELOT_WHEEL :: "(string \<times> camelot_key) list" where
  "CAMELOT_WHEEL =
     [(''C'', \<lparr>number = 8, letter = B, name = ''C Major''\<rparr>),
      (''G'', \<lparr>number = 9, letter = B, name = ''G Major''\<rparr>),
      (''D'', \<lparr>number = 10, letter = B, name = ''D Major''\<rparr>),
      (''A'', \<lparr>number = 11, letter = B, name = ''A Major''\<rparr>),
      (''E'', \<lparr>number = 12, letter = B, name = ''E Major''\<rparr>),
      (''B'', \<lparr>number = 1, letter = B, name = ''B Major''\<rparr>),
      (''F#'', \<lparr>number = 2, letter = B, name = ''F# Major''\<rparr>),
      (''Db'', \<lparr>number = 3, letter = B, name = ''Db Major''\<rparr>),
      (''Ab'', \<lparr>number = 4, letter = B, name = ''Ab Major''\<rparr>),
      (''Eb'', \<lparr>number = 5, letter = B, name = ''Eb Major''\<rparr>),
      (''Bb'', \<lparr>number = 6, letter = B, name = ''Bb Major''\<rparr>),
      (''F'', \<lparr>number = 7, letter = B, name = ''F Major''\<rparr>),
      (''Am'', \<lparr>number = 8, letter = A, name = ''A Minor''\<rparr>),
      (''Em'', \<lparr>number = 9, letter = A, name = ''E Minor''\<rparr>),
      (''Bm'', \<lparr>number = 10, letter = A, name = ''B Minor''\<rparr>),
      (''F#m'', \<lparr>number = 11, letter = A, name = ''F# Minor''\<rparr>),
      (''C#m'', \<lparr>number = 12, letter = A, name = ''C# Minor''\<rparr>),
      (''G#m'', \<lparr>number = 1, letter = A, name = ''G# Minor''\<rparr>),
      (''Ebm'', \<lparr>number = 2, letter = A, name = ''Eb Minor''\<rparr>),
      (''Bbm'', \<lparr>number = 3, letter = A, name = ''Bb Minor''\<rparr>),
      (''Fm'', \<lparr>number = 4, letter = A, name = ''F Minor''\<rparr>),
      (''Cm'', \<lparr>number = 5, letter = A, name = ''C Minor''\<rparr>),
      (''Gm'', \<lparr>number = 6, letter = A, name = ''G Minor''\<rparr>),
      (''Dm'', \<lparr>number = 7, letter = A, name = ''D Minor''\<rparr>)]"

text \<open>The object \<^verbatim>\<open>checkKeyCompatibility\<close> returns; \<open>distance = None\<close> is \<^verbatim>\<open>null\<close>.\<close>

record compatibility =
  compatible :: bool
  distance :: "int option"
  reason :: string

definition checkKeyCompatibility :: "string \<Rightarrow> string \<Rightarrow> compatibility" where
  "checkKeyCompatibility key1 key2 =
     (case (map_of CAMELOT_WHEEL key1, map_of CAMELOT_WHEEL key2) of
        (Some k1, Some k2) \<Rightarrow>
          if key1 = key2 then
            \<lparr>compatible = True, distance = Some 0, reason = ''Same key''\<rparr>
          else if number k1 = number k2 then
            \<lparr>compatible = True, distance = Some 1, reason = ''Relative major/minor''\<rparr>
          else
            let numDiff = \<bar>number k1 - number k2\<bar>;
                circularDiff = min numDiff (12 - numDiff)
            in if circularDiff = 1 then
                 \<lparr>compatible = True, distance = Some 2, reason = ''Adjacent on Camelot wheel''\<rparr>
               else if circularDiff = 2 then
                 \<lparr>compatible = True, distance = Some 3, reason = ''Energy boost zone''\<rparr>
               else if letter k1 = letter k2 \<and> circularDiff \<le> 3 then
                 \<lparr>compatible = True, distance = Some 3, reason = ''Same mode''\<rparr>
               else
                 \<lparr>compatible = False, distance = Some circularDiff, reason = ''Dissonant''\<rparr>
      | _ \<Rightarrow> \<lparr>compatible = False, distance = None, reason = ''Unknown key''\<rparr>)"

section \<open>Numbers\<close>

text \<open>
  Times, durations and tempos are finite JavaScript numbers and are modelled as reals
  (rounding and overflow of IEEE doubles are outside the model). Spectral values can be
  \<^verbatim>\<open>NaN\<close> (a read past the end of an array feeds \<^verbatim>\<open>undefined\<close> into arithmetic) and
  \<^verbatim>\<open>Math.max()\<close> of nothing is \<^verbatim>\<open>-Infinity\<close>, so energies, flux values and their
  derivatives are \<open>jsnum\<close>. A comparison with \<^verbatim>\<open>NaN\<close> is false.
\<close>

datatype jsnum = NaN | PInf | NInf | Num real

fun js_neg :: "jsnum \<Rightarrow> jsnum" where
  "js_neg NaN = NaN"
| "js_neg PInf = NInf"
| "js_neg NInf = PInf"
| "js_neg (Num a) = Num (- a)"

fun js_add :: "jsnum \<Rightarrow> jsnum \<Rightarrow> jsnum" where
  "js_add (Num a) (Num b) = Num (a + b)"
| "js_add NaN y = NaN"
| "js_add x NaN = NaN"
| "js_add PInf NInf = NaN"
| "js_add NInf PInf = NaN"
| "js_add PInf y = PInf"
| "js_add NInf y = NInf"
| "js_add (Num a) y = y"

definition js_sub :: "jsnum \<Rightarrow> jsnum \<Rightarrow> jsnum" where
  "js_sub x y = js_add x (js_neg y)"

text \<open>The sign of a number that is not \<^verbatim>\<open>NaN\<close>: \<open>1\<close>, \<open>0\<close> or \<open>-1\<close>.\<close>

fun js_sign :: "jsnum \<Rightarrow> int" where
  "js_sign PInf = 1"
| "js_sign NInf = - 1"
| "js_sign (Num a) = (if a > 0 then 1 else if a < 0 then - 1 else 0)"
| "js_sign NaN = 0"

fun js_mul :: "jsnum \<Rightarrow> jsnum \<Rightarrow> jsnum" where
  "js_mul (Num a) (Num b) = Num (a * b)"
| "js_mul NaN y = NaN"
| "js_mul x NaN = NaN"
| "js_mul x y =
     (if js_sign x * js_sign y = 0 then NaN
      else if js_sign x * js_sign y > 0 then PInf else NInf)"

fun js_div :: "jsnum \<Rightarrow> jsnum \<Rightarrow> jsnum" where
  "js_div NaN y = NaN"
| "js_div x NaN = NaN"
| "js_div (Num a) (Num b) =
     (if b \<noteq> 0 then Num (a / b)
      else if a = 0 then NaN else if a > 0 then PInf else NInf)"
| "js_div (Num a) y = Num 0"
| "js_div x (Num b) = (if js_sign x * (if b < 0 then - 1 else 1) > 0 then PInf else NInf)"
| "js_div x y = NaN"

fun js_abs :: "jsnum \<Rightarrow> jsnum" where
  "js_abs NaN = NaN"
| "js_abs PInf = PInf"
| "js_abs NInf = PInf"
| "js_abs (Num a) = Num \<bar>a\<bar>"

fun js_lt :: "jsnum \<Rightarrow> jsnum \<Rightarrow> bool" where
  "js_lt NaN y = False"
| "js_lt x NaN = False"
| "js_lt (Num a) (Num b) = (a < b)"
| "js_lt NInf y = (y \<noteq> NInf)"
| "js_lt x PInf = (x \<noteq> PInf)"
| "js_lt x y = False"

definition js_gt :: "jsnum \<Rightarrow> jsnum \<Rightarrow> bool" where
  "js_gt x y = js_lt y x"

text \<open>\<^verbatim>\<open>xs.reduce((a, b) => a + b, 0)\<close>.\<close>

definition js_sum :: "jsnum list \<Rightarrow> jsnum" where
  "js_sum xs = foldl js_add (Num 0) xs"

text \<open>\<^verbatim>\<open>Math.max(...xs)\<close>: \<^verbatim>\<open>-Infinity\<close> for no argument, \<^verbatim>\<open>NaN\<close> if any argument is.\<close>

definition Math_max :: "jsnum list \<Rightarrow> jsnum" where
  "Math_max xs = foldl (\<lambda>m x. if m = NaN \<or> x = NaN then NaN else if js_lt m x then x else m) NInf xs"

text \<open>Reading a property of \<^verbatim>\<open>undefined\<close> or \<^verbatim>\<open>null\<close> throws a \<^verbatim>\<open>TypeError\<close>.\<close>

datatype js_error = TypeError

section \<open>Map objects\<close>

text \<open>
  A JavaScript \<^verbatim>\<open>Map\<close> iterates in insertion order: it is an association list with
  distinct keys. \<^verbatim>\<open>set\<close> on a present key keeps the key's position; on a new key it
  appends. \<^verbatim>\<open>keys().next().value\<close> is the first key, \<^verbatim>\<open>undefined\<close> (\<open>None\<close>) for an
  empty map, and deleting \<^verbatim>\<open>undefined\<close> from a map keyed by strings deletes nothing.
\<close>

definition map_has :: "('k \<times> 'v) list \<Rightarrow> 'k \<Rightarrow> bool" where
  "map_has m k = (map_of m k \<noteq> None)"

fun map_set :: "('k \<times> 'v) list \<Rightarrow> 'k \<Rightarrow> 'v \<Rightarrow> ('k \<times> 'v) list" where
  "map_set [] k v = [(k, v)]"
| "map_set (e # m) k v = (if fst e = k then (k, v) # m else e # map_set m k v)"

definition map_delete :: "('k \<times> 'v) list \<Rightarrow> 'k \<Rightarrow> ('k \<times> 'v) list" where
  "map_delete m k = filter (\<lambda>e. fst e \<noteq> k) m"

definition map_first_key :: "('k \<times> 'v) list \<Rightarrow> 'k option" where
  "map_first_key m = (case m of [] \<Rightarrow> None | e # _ \<Rightarrow> Some (fst e))"

section \<open>Track analyses and the planner of AutoMixEngineHowler\<close>

record beat =
  time :: real
  energy :: jsnum
  strength :: jsnum

record energy_frame =
  frame_time :: real
  frame_energy :: jsnum
  flux :: jsnum

record transition_points =
  tp_mixOutPoint :: real
  tp_mixInPoint :: real
  tp_duration :: real

text \<open>The object \<^verbatim>\<open>AudioAnalyzer.analyze\<close> returns.\<close>

record track_analysis =
  duration :: real
  tempo :: real
  key :: string
  beats :: "beat list"
  energyEnvelope :: "energy_frame list"
  transitionPoints :: transition_points
  averageEnergy :: jsnum
  peakEnergy :: jsnum

text \<open>A loaded \<^verbatim>\<open>Howl\<close>, as far as the planner reads it: its \<^verbatim>\<open>duration()\<close>.\<close>

record howl =
  howl_duration :: real

record track_data =
  td_howl :: howl
  td_analysis :: track_analysis
  url :: string
  trackId :: string

record engine_options =
  crossfadeDuration :: real
  tempoMatch :: bool
  harmonicMixing :: bool
  eqBlend :: bool
  lookaheadSeconds :: real
  transitionOverlap :: real

record engine =
  options :: engine_options
  trackCache :: "(string \<times> track_data) list"
  maxCacheSize :: nat
  currentHowl :: "howl option"
  currentAnalysis :: "track_analysis option"
  nextAnalysis :: "track_analysis option"

text \<open>The options of \<^verbatim>\<open>new AutoMixEngineHowler()\<close>, as \<^verbatim>\<open>AutoMixController\<close> builds it.\<close>

definition default_options :: engine_options where
  "default_options =
     \<lparr>crossfadeDuration = 16, tempoMatch = True, harmonicMixing = True, eqBlend = True,
      lookaheadSeconds = 30, transitionOverlap = 0.95\<rparr>"

text \<open>The state the constructor leaves: empty cache of at most 30 entries, nothing loaded.\<close>

definition new_engine :: "engine_options \<Rightarrow> engine" where
  "new_engine opts =
     \<lparr>options = opts, trackCache = [], maxCacheSize = 30, currentHowl = None,
      currentAnalysis = None, nextAnalysis = None\<rparr>"

definition addToCache :: "engine \<Rightarrow> string \<Rightarrow> track_data \<Rightarrow> engine" where
  "addToCache e tid data =
     (let cache1 =
            (if length (trackCache e) \<ge> maxCacheSize e then
               (case map_first_key (trackCache e) of
                  None \<Rightarrow> trackCache e
                | Some firstKey \<Rightarrow> map_delete (trackCache e) firstKey)
             else trackCache e)
      in e\<lparr>trackCache := map_set cache1 tid data\<rparr>)"

record timing =
  currentOut :: real
  nextIn :: real
  timing_duration :: real
  tempoRatio :: real

definition calculateTransitionTiming_howler :: "engine \<Rightarrow> timing" where
  "calculateTransitionTiming_howler e =
     (let hduration = (case currentHowl e of Some h \<Rightarrow> howl_duration h | None \<Rightarrow> 0) in
      case (currentAnalysis e, nextAnalysis e) of
        (Some cur, Some nxt) \<Rightarrow>
          let currentDuration = duration cur;
              targetTime = currentDuration * transitionOverlap (options e);
              beatsBeforeTarget = filter (\<lambda>b. time b \<le> targetTime) (beats cur);
              mixOutPoint =
                (if length (beats cur) > 0 \<and> length beatsBeforeTarget > 0
                 then time (last beatsBeforeTarget) else targetTime);
              mixInPoint =
                (if length (beats nxt) > 0 then
                   (case find (\<lambda>b. js_gt (strength b) (Num 0.5)) (beats nxt) of
                      Some firstStrongBeat \<Rightarrow>
                        if time firstStrongBeat < 5 then time firstStrongBeat else 0
                    | None \<Rightarrow> 0)
                 else 0);
              ratio = tempo cur / tempo nxt;
              tr = (if tempoMatch (options e) \<and> tempo cur > 0 \<and> tempo nxt > 0
                       \<and> ratio \<ge> 0.9 \<and> ratio \<le> 1.1
                    then ratio else 1)
          in \<lparr>currentOut = mixOutPoint, nextIn = mixInPoint,
              timing_duration = crossfadeDuration (options e), tempoRatio = tr\<rparr>
      | _ \<Rightarrow>
          \<lparr>currentOut = hduration * transitionOverlap (options e), nextIn = 0,
           timing_duration = crossfadeDuration (options e), tempoRatio = 1\<rparr>)"

section \<open>AutoMixEngine (AutoMix module): planner and analysis cache\<close>

text \<open>
  The object \<^verbatim>\<open>preAnalyzeTrack\<close> resolves to: the result of \<^verbatim>\<open>analyzeTrackWaveform\<close> with
  \<^verbatim>\<open>key\<close> and \<^verbatim>\<open>camelot\<close>, both \<^verbatim>\<open>null\<close> (\<open>None\<close>).
\<close>

record waveform_analysis =
  wf_duration :: real
  introSkipPoint :: real
  outroTrimPoint :: real
  beatPositions :: "real list"
  averageRMS :: jsnum
  wf_key :: "string option"
  camelot :: "string option"

record mix_options =
  mix_crossfadeDuration :: real
  introSkipEnabled :: bool
  outroTrimEnabled :: bool
  eqDuckEnabled :: bool
  harmonicMixEnabled :: bool
  beatSyncEnabled :: bool

record mix_engine =
  mix_engine_options :: mix_options
  analysisCache :: "(string \<times> waveform_analysis) list"

record mix_timing =
  mixOutPoint :: real
  mixInPoint :: real
  mix_duration :: real

text \<open>
  \<^verbatim>\<open>calculateTransitionTiming(currentAnalysis, nextAnalysis)\<close>. An analysis is \<open>None\<close> when
  it is \<^verbatim>\<open>null\<close> (\<^verbatim>\<open>getTrackAnalysis\<close> gives \<^verbatim>\<open>null\<close> for a track whose analysis failed):
  reading \<^verbatim>\<open>currentAnalysis.duration\<close> then throws; \<^verbatim>\<open>nextAnalysis\<close> is never read.
  \<^verbatim>\<open>currentAnalysis.outroTrimPoint\<close> is tested for truth: \<open>0\<close> is falsy.
\<close>

definition calculateTransitionTiming ::
  "mix_engine \<Rightarrow> waveform_analysis option \<Rightarrow> waveform_analysis option \<Rightarrow> js_error + mix_timing" where
  "calculateTransitionTiming e currentAnalysis' nextAnalysis' =
     (case currentAnalysis' of
        None \<Rightarrow> Inl TypeError
      | Some cur \<Rightarrow>
          let crossfadeDuration' = mix_crossfadeDuration (mix_engine_options e);
              mixOut0 = wf_duration cur - crossfadeDuration';
              mixOut1 =
                (if outroTrimEnabled (mix_engine_options e) \<and> outroTrimPoint cur \<noteq> 0 then
                   let remaining = wf_duration cur - outroTrimPoint cur
                   in if remaining > 3 then outroTrimPoint cur - crossfadeDuration' else mixOut0
                 else mixOut0)
          in Inr \<lparr>mixOutPoint = max mixOut1 crossfadeDuration', mixInPoint = 0,
                   mix_duration = crossfadeDuration'\<rparr>)"

text \<open>
  \<^verbatim>\<open>getTrackAnalysis(trackId, url)\<close>. The outcome of \<^verbatim>\<open>preAnalyzeTrack(url)\<close> is the
  parameter \<open>fetched\<close> (\<open>None\<close> is \<^verbatim>\<open>null\<close>: the analysis failed); it is consulted only
  when the track is not cached.
\<close>

definition getTrackAnalysis ::
  "mix_engine \<Rightarrow> string \<Rightarrow> waveform_analysis option \<Rightarrow> waveform_analysis option \<times> mix_engine" where
  "getTrackAnalysis e tid fetched =
     (if map_has (analysisCache e) tid then (map_of (analysisCache e) tid, e)
      else
        (case fetched of
           Some analysis \<Rightarrow> (Some analysis, e\<lparr>analysisCache := map_set (analysisCache e) tid analysis\<rparr>)
         | None \<Rightarrow> (None, e)))"

text \<open>
  A run of insertions: \<^verbatim>\<open>_addToCache\<close> once per loaded track (\<^verbatim>\<open>loadTrack\<close> calls it for
  every track that is not cached), and \<^verbatim>\<open>getTrackAnalysis\<close> once per requested track.
\<close>

definition addToCache_all :: "engine \<Rightarrow> (string \<times> track_data) list \<Rightarrow> engine" where
  "addToCache_all e kds = foldl (\<lambda>e' kd. addToCache e' (fst kd) (snd kd)) e kds"

definition getTrackAnalysis_all :: "mix_engine \<Rightarrow> (string \<times> waveform_analysis option) list \<Rightarrow> mix_engine" where
  "getTrackAnalysis_all e reqs = foldl (\<lambda>e' r. snd (getTrackAnalysis e' (fst r) (snd r))) e reqs"

text \<open>Fixtures: an analysis of a track without beats, a loaded track, a waveform analysis.\<close>

definition beatless_analysis :: "real \<Rightarrow> real \<Rightarrow> track_analysis" where
  "beatless_analysis d t =
     \<lparr>duration = d, tempo = t, key = ''C'', beats = [], energyEnvelope = [],
      transitionPoints = \<lparr>tp_mixOutPoint = d - 10, tp_mixInPoint = 0, tp_duration = d\<rparr>,
      averageEnergy = NaN, peakEnergy = NInf\<rparr>"

definition track_fixture :: "string \<Rightarrow> track_data" where
  "track_fixture tid =
     \<lparr>td_howl = \<lparr>howl_duration = 200\<rparr>, td_analysis = beatless_analysis 200 0,
      url = ''https://example.org/'' @ tid, trackId = tid\<rparr>"

definition waveform_fixture :: waveform_analysis where
  "waveform_fixture =
     \<lparr>wf_duration = 200, introSkipPoint = 0, outroTrimPoint = 200, beatPositions = [],
      averageRMS = Num 0, wf_key = None, camelot = None\<rparr>"

definition new_mix_engine :: mix_engine where
  "new_mix_engine =
     \<lparr>mix_engine_options =
        \<lparr>mix_crossfadeDuration = 12, introSkipEnabled = True, outroTrimEnabled = True,
         eqDuckEnabled = True, harmonicMixEnabled = True, beatSyncEnabled = True\<rparr>,
      analysisCache = []\<rparr>"

section \<open>Tempo estimation (AudioAnalyzer._calculateTempo)\<close>

text \<open>\<^verbatim>\<open>Math.round\<close> rounds to the nearest integer, a tie towards \<open>+\<infinity>\<close>.\<close>

definition Math_round :: "real \<Rightarrow> int" where
  "Math_round x = \<lfloor>x + 1 / 2\<rfloor>"

definition intervals :: "beat list \<Rightarrow> real list" where
  "intervals bs = map (\<lambda>i. time (bs ! i) - time (bs ! (i - 1))) [1..<length bs]"

text \<open>The histogram loop: a \<^verbatim>\<open>Map\<close> from the rounded interval to its count.\<close>

definition histogram_step :: "(real \<times> nat) list \<Rightarrow> real \<Rightarrow> (real \<times> nat) list" where
  "histogram_step h interval =
     (let rounded = real_of_int (Math_round (interval * 10)) / 10
      in map_set h rounded ((case map_of h rounded of Some c \<Rightarrow> c | None \<Rightarrow> 0) + 1))"

definition histogram :: "real list \<Rightarrow> (real \<times> nat) list" where
  "histogram ivs = foldl histogram_step [] ivs"

text \<open>The loop over the histogram entries, on the pair \<open>(maxCount, commonInterval)\<close>.\<close>

definition most_common_step :: "nat \<times> real \<Rightarrow> real \<times> nat \<Rightarrow> nat \<times> real" where
  "most_common_step acc entry = (if snd entry > fst acc then (snd entry, fst entry) else acc)"

definition commonInterval :: "(real \<times> nat) list \<Rightarrow> real" where
  "commonInterval h = snd (foldl most_common_step (0, 0) h)"

definition calculateTempo :: "beat list \<Rightarrow> real" where
  "calculateTempo bs =
     (if length bs < 2 then 0
      else let c = commonInterval (histogram (intervals bs))
           in if c > 0 then 60 / c else 0)"

text \<open>
  The specification's wording of the same computation: the inter-beat intervals rounded
  to 0.1 s, and what it means for a value to be a mode of a list.
\<close>

definition rounded_intervals_spec :: "beat list \<Rightarrow> real list" where
  "rounded_intervals_spec bs =
     map (\<lambda>p. real_of_int (round ((time (snd p) - time (fst p)) * 10)) / 10) (zip bs (tl bs))"

definition is_mode :: "real \<Rightarrow> real list \<Rightarrow> bool" where
  "is_mode m xs = (m \<in> set xs \<and> (\<forall>x \<in> set xs. count_list xs x \<le> count_list xs m))"

text \<open>Proof devices: the rounding of one interval, and the count a histogram holds for a value.\<close>

definition round_tenth :: "real \<Rightarrow> real" where
  "round_tenth iv = real_of_int (Math_round (iv * 10)) / 10"

definition hcount :: "(real \<times> nat) list \<Rightarrow> real \<Rightarrow> nat" where
  "hcount h x = (case map_of h x of Some c \<Rightarrow> c | None \<Rightarrow> 0)"

text \<open>Fixture: \<open>n\<close> beats from time \<open>t0\<close> on, \<open>d\<close> seconds apart.\<close>

definition steady_beats :: "real \<Rightarrow> real \<Rightarrow> nat \<Rightarrow> beat list" where
  "steady_beats t0 d n = map (\<lambda>k. \<lparr>time = t0 + real k * d, energy = Num 1, strength = Num 1\<rparr>) [0..<n]"

section \<open>Beat detection\<close>

text \<open>
  Reading an array past its end gives \<^verbatim>\<open>undefined\<close>, which arithmetic turns into
  \<^verbatim>\<open>NaN\<close>.
\<close>

definition read_num :: "jsnum list \<Rightarrow> nat \<Rightarrow> jsnum" where
  "read_num xs i = (if i < length xs then xs ! i else NaN)"

text \<open>\<^verbatim>\<open>xs.slice(start, end)\<close> for \<open>0 \<le> start\<close> and \<open>0 \<le> end\<close>.\<close>

definition slice :: "'a list \<Rightarrow> nat \<Rightarrow> nat \<Rightarrow> 'a list" where
  "slice xs start end' = take (end' - start) (drop start xs)"

text \<open>\<^verbatim>\<open>AudioAnalyzer._calculateAdaptiveThreshold\<close>, with its window of 10 samples.\<close>

definition calculateAdaptiveThreshold :: "jsnum list \<Rightarrow> jsnum list" where
  "calculateAdaptiveThreshold fluxValues =
     map (\<lambda>i. let start = nat (max 0 (int i - 10));
                  end' = min (length fluxValues) (i + 10);
                  localMean = js_div (js_sum (slice fluxValues start end'))
                                (Num (real end' - real start))
              in js_mul localMean (Num 1.5))
       [0..<length fluxValues]"

text \<open>The test of the loop body of \<^verbatim>\<open>_detectBeatsAdvanced\<close> at index \<open>i\<close>.\<close>

definition is_flux_peak :: "jsnum list \<Rightarrow> jsnum list \<Rightarrow> nat \<Rightarrow> bool" where
  "is_flux_peak fluxValues threshold i =
     (js_gt (read_num fluxValues i) (read_num threshold i) \<and>
      js_gt (read_num fluxValues i) (read_num fluxValues (i - 1)) \<and>
      js_gt (read_num fluxValues i) (read_num fluxValues (i + 1)))"

function detectBeatsAdvanced_loop ::
  "energy_frame list \<Rightarrow> jsnum list \<Rightarrow> jsnum list \<Rightarrow> nat \<Rightarrow> beat list \<Rightarrow> js_error + beat list" where
  "detectBeatsAdvanced_loop env fluxValues threshold i bs =
     (if i + 1 < length fluxValues then
        if is_flux_peak fluxValues threshold i then
          if i < length env then
            detectBeatsAdvanced_loop env fluxValues threshold (i + 1)
              (bs @ [\<lparr>time = frame_time (env ! i), energy = frame_energy (env ! i),
                      strength = read_num fluxValues i\<rparr>])
          else Inl TypeError
        else detectBeatsAdvanced_loop env fluxValues threshold (i + 1) bs
      else Inr bs)"
  by pat_completeness auto
termination
  by (relation "measure (\<lambda>(env, fluxValues, threshold, i, bs). length fluxValues - i)") auto

declare detectBeatsAdvanced_loop.simps [simp del]

definition detectBeatsAdvanced :: "energy_frame list \<Rightarrow> jsnum list \<Rightarrow> js_error + beat list" where
  "detectBeatsAdvanced env fluxValues =
     detectBeatsAdvanced_loop env fluxValues (calculateAdaptiveThreshold fluxValues) 1 []"

text \<open>
  \<^verbatim>\<open>detectBeats(energyEnvelope, framesPerSecond)\<close> of the AutoMix module, over frames
  \<^verbatim>\<open>{time, rms}\<close>; \<^verbatim>\<open>minBeatInterval\<close> is 0.3 and \<^verbatim>\<open>framesPerSecond\<close> is not read.
\<close>

record rms_frame =
  rms_time :: real
  rms :: real

definition minBeatInterval :: real where
  "minBeatInterval = 0.3"

function detectBeats_loop :: "rms_frame list \<Rightarrow> nat \<Rightarrow> real \<Rightarrow> real list \<Rightarrow> real list" where
  "detectBeats_loop env i lastBeatTime bs =
     (if i + 2 < length env then
        let current = env ! i; prev = env ! (i - 1); next = env ! (i + 1) in
        if rms current > rms prev \<and> rms current > rms next \<and>
           rms_time current - lastBeatTime \<ge> minBeatInterval \<and>
           rms current > (rms prev + rms next) / 2 * 1.2
        then detectBeats_loop env (i + 1) (rms_time current) (bs @ [rms_time current])
        else detectBeats_loop env (i + 1) lastBeatTime bs
      else bs)"
  by pat_completeness auto
termination
  by (relation "measure (\<lambda>(env, i, lastBeatTime, bs). length env - i)") auto

declare detectBeats_loop.simps [simp del]

definition detectBeats :: "rms_frame list \<Rightarrow> real \<Rightarrow> real list" where
  "detectBeats env framesPerSecond = detectBeats_loop env 2 0 []"

text \<open>Fixture: analysis frames one hop (0.05 s) apart carrying the given flux values.\<close>

definition frames_of_flux :: "real list \<Rightarrow> energy_frame list" where
  "frames_of_flux fs =
     map (\<lambda>i. \<lparr>frame_time = real i * 0.05, frame_energy = Num 1, flux = Num (fs ! i)\<rparr>)
       [0..<length fs]"

text \<open>Proof device: the beat \<^verbatim>\<open>_detectBeatsAdvanced\<close> pushes for frame \<open>i\<close>.\<close>

definition beat_at :: "energy_frame list \<Rightarrow> jsnum list \<Rightarrow> nat \<Rightarrow> beat" where
  "beat_at env fluxValues i =
     \<lparr>time = frame_time (env ! i), energy = frame_energy (env ! i), strength = read_num fluxValues i\<rparr>"

text \<open>Fixture: frames \<^verbatim>\<open>{time, rms}\<close> 0.2 s apart carrying the given RMS values.\<close>

definition rms_frames :: "real list \<Rightarrow> rms_frame list" where
  "rms_frames rs = map (\<lambda>i. \<lparr>rms_time = real i * 0.2, rms = rs ! i\<rparr>) [0..<length rs]"

section \<open>Crossfade curves (AutoMixEngineHowler)\<close>

text \<open>
  \<^verbatim>\<open>_executeCrossfade\<close> with an audio context schedules 61 points, \<open>i = 0, \<dots>, 60\<close>, on the
  two gain parameters: the values \<^verbatim>\<open>currentValue\<close> and \<^verbatim>\<open>nextValue\<close> of the loop body at
  \<open>t = i / 60\<close>, set at \<open>i = 0\<close> as the constants 1 and 0.001 and afterwards as targets of
  exponential ramps.
\<close>

definition currentValue :: "real \<Rightarrow> real" where
  "currentValue t = max 0.001 (cos (t * pi / 2))"

definition nextValue :: "real \<Rightarrow> real" where
  "nextValue t = max 0.001 (sin (t * pi / 2))"

record gain_point =
  at_time :: real
  current_gain :: real
  next_gain :: real

definition executeCrossfade_schedule :: "real \<Rightarrow> real \<Rightarrow> gain_point list" where
  "executeCrossfade_schedule now dur =
     map (\<lambda>i. let steps = 60;
                  stepDuration = dur / steps;
                  t = real i / steps;
                  time' = now + real i * stepDuration
              in if i = 0 then \<lparr>at_time = time', current_gain = 1, next_gain = 0.001\<rparr>
                 else \<lparr>at_time = time', current_gain = currentValue t, next_gain = nextValue t\<rparr>)
       [0..<61]"

text \<open>
  \<^verbatim>\<open>_volumeCrossfade\<close>, the fallback without audio context: the pairs
  \<open>(fadeOut, fadeIn)\<close> its timer passes to \<^verbatim>\<open>volume\<close>, for \<open>step = 1, 2, \<dots>\<close> until
  \<open>step \<ge> totalSteps\<close>. For \<open>totalSteps = 0\<close> the only tick has \<open>t = 1 / 0\<close>, infinite, whose
  cosine and sine are \<^verbatim>\<open>NaN\<close>.
\<close>

definition volumeCrossfade :: "real \<Rightarrow> (jsnum \<times> jsnum) list" where
  "volumeCrossfade dur =
     (let steps = 60;
          totalSteps = \<lceil>dur * steps\<rceil>
      in map (\<lambda>step.
                if totalSteps = 0 then (NaN, NaN)
                else let t = real step / real_of_int totalSteps
                     in (Num (cos (t * pi / 2)), Num (sin (t * pi / 2))))
           [1..<Suc (nat (max 1 totalSteps))])"

text \<open>
  \<^verbatim>\<open>_executeCrossfade(duration)\<close>: without an audio context it falls back to
  \<^verbatim>\<open>_volumeCrossfade\<close>; \<open>now\<close> is \<^verbatim>\<open>audioContext.currentTime\<close>.
\<close>

datatype crossfade_actions = Scheduled "gain_point list" | Volumes "(jsnum \<times> jsnum) list"

definition executeCrossfade :: "bool \<Rightarrow> real \<Rightarrow> real \<Rightarrow> crossfade_actions" where
  "executeCrossfade hasAudioContext now dur =
     (if \<not> hasAudioContext then Volumes (volumeCrossfade dur)
      else Scheduled (executeCrossfade_schedule now dur))"

section \<open>AudioAnalyzer.analyze\<close>

text \<open>
  An \<^verbatim>\<open>AudioBuffer\<close>: its sample rate, the samples of channel 0 and its duration. The
  samples are finite numbers.
\<close>

record audio_buffer =
  sampleRate :: real
  channelData :: "real list"
  buffer_duration :: real

text \<open>The elements at the even and at the odd indices, as the loop of \<^verbatim>\<open>_fft\<close> splits them.\<close>

fun evens :: "'a list \<Rightarrow> 'a list" where
  "evens [] = []"
| "evens [x] = [x]"
| "evens (x # y # zs) = x # evens zs"

fun odds :: "'a list \<Rightarrow> 'a list" where
  "odds [] = []"
| "odds [x] = []"
| "odds (x # y # zs) = y # odds zs"

lemma length_evens_odds:
  "length (evens xs) = (length xs + 1) div 2 \<and> length (odds xs) = length xs div 2"
  by (induction xs rule: evens.induct) simp_all

text \<open>
  \<^verbatim>\<open>_fft(signal)\<close>. The loop runs over \<open>k < n / 2\<close> and writes \<open>result[k]\<close> and
  \<open>result[k + n / 2]\<close>; the function returns \<open>result.slice(0, n / 2)\<close>, the entries
  \<open>result[k]\<close> for \<open>k < \<lfloor>n / 2\<rfloor>\<close>. \<open>evenFFT[k]\<close> and \<open>oddFFT[k]\<close> are read past the end of
  the half-length results of the recursive calls.
\<close>

function fft :: "jsnum list \<Rightarrow> jsnum list" where
  "fft signal =
     (if length signal \<le> 1 then map js_abs signal
      else
        map (\<lambda>k. js_abs
                  (js_add (read_num (fft (evens signal)) k)
                     (js_mul (read_num (fft (odds signal)) k)
                        (Num (exp (- 2 * pi * real k / real (length signal)))))))
          [0..<length signal div 2])"
  by pat_completeness auto
termination
  by (relation "measure length") (auto simp: length_evens_odds)

declare fft.simps [simp del]

definition calculateEnergy :: "jsnum list \<Rightarrow> jsnum" where
  "calculateEnergy spectrum =
     js_div (foldl (\<lambda>sum val. js_add sum (js_mul val val)) (Num 0) spectrum)
       (Num (real (length spectrum)))"

text \<open>The spectral flux of one window against the previous spectrum (\<open>None\<close> is \<^verbatim>\<open>null\<close>).\<close>

definition spectral_flux :: "jsnum list \<Rightarrow> jsnum list option \<Rightarrow> jsnum" where
  "spectral_flux spectrum previousSpectrum =
     (case previousSpectrum of
        None \<Rightarrow> Num 0
      | Some previous \<Rightarrow>
          foldl (\<lambda>flux' j.
                   let diff = js_sub (read_num spectrum j) (read_num previous j)
                   in js_add flux' (if js_gt diff (Num 0) then diff else Num 0))
            (Num 0) [0..<length spectrum])"

text \<open>
  The analysis loop, from sample \<open>i\<close> on. It does not return when \<open>hopSize\<close> is 0 and
  its condition holds.
\<close>

partial_function (option) analyze_loop ::
  "audio_buffer \<Rightarrow> nat \<Rightarrow> nat \<Rightarrow> nat \<Rightarrow> energy_frame list \<Rightarrow> jsnum list \<Rightarrow> jsnum list option
     \<Rightarrow> (energy_frame list \<times> jsnum list) option" where
  "analyze_loop buf hopSize windowSize i energyEnvelope' fluxValues previousSpectrum =
     (if i + windowSize < length (channelData buf) \<and> real i < sampleRate buf * 30 then
        let window = slice (channelData buf) i (i + windowSize);
            spectrum = fft (map Num window);
            energy' = calculateEnergy spectrum;
            flux' = spectral_flux spectrum previousSpectrum
        in analyze_loop buf hopSize windowSize (i + hopSize)
             (energyEnvelope' @
                [\<lparr>frame_time = real i / sampleRate buf, frame_energy = energy', flux = flux'\<rparr>])
             (fluxValues @ [flux']) (Some spectrum)
      else Some (energyEnvelope', fluxValues))"

text \<open>\<^verbatim>\<open>_chromagram\<close>: only the root bin receives the energy of the window.\<close>

definition chromagram :: "real list \<Rightarrow> jsnum list" where
  "chromagram window =
     js_div (Num (foldl (\<lambda>sum x. sum + x * x) 0 window)) (Num (real (length window)))
       # replicate 11 (Num 0)"

partial_function (option) detectKey_loop ::
  "audio_buffer \<Rightarrow> real \<Rightarrow> nat \<Rightarrow> nat \<Rightarrow> jsnum list \<Rightarrow> jsnum list option" where
  "detectKey_loop buf samples hopSize i chroma =
     (if real i < samples then
        let chromaFrame = chromagram (slice (channelData buf) i (i + hopSize))
        in detectKey_loop buf samples hopSize (i + hopSize)
             (map (\<lambda>j. js_add (read_num chroma j) (read_num chromaFrame j)) [0..<12])
      else Some chroma)"

text \<open>
  \<^verbatim>\<open>_chromaToKey\<close>: \<^verbatim>\<open>indexOf\<close> compares with \<^verbatim>\<open>===\<close>, which \<^verbatim>\<open>NaN\<close> never satisfies, and
  returns \<open>-1\<close> when nothing is found; \<^verbatim>\<open>noteNames[-1]\<close> is \<^verbatim>\<open>undefined\<close>, replaced by \<open>C\<close>.
\<close>

definition noteNames :: "string list" where
  "noteNames = [''C'', ''C#'', ''D'', ''D#'', ''E'', ''F'', ''F#'', ''G'', ''G#'', ''A'', ''A#'', ''B'']"

definition chromaToKey :: "jsnum list \<Rightarrow> string" where
  "chromaToKey chroma =
     (case find (\<lambda>j. chroma ! j \<noteq> NaN \<and> chroma ! j = Math_max chroma) [0..<length chroma] of
        Some maxIndex \<Rightarrow> (if maxIndex < length noteNames then noteNames ! maxIndex else ''C'')
      | None \<Rightarrow> ''C'')"

definition detectKey :: "audio_buffer \<Rightarrow> string option" where
  "detectKey buf =
     (let samples = min (real (length (channelData buf))) (sampleRate buf * 10);
          hopSize = nat \<lfloor>sampleRate buf * 0.05\<rfloor>
      in case detectKey_loop buf samples hopSize 0 (replicate 12 (Num 0)) of
           None \<Rightarrow> None
         | Some chroma \<Rightarrow>
             let max' = Math_max chroma;
                 normalized = (if js_gt max' (Num 0) then map (\<lambda>c. js_div c max') chroma else chroma)
             in Some (chromaToKey normalized))"

definition findTransitionPoints :: "energy_frame list \<Rightarrow> real \<Rightarrow> transition_points" where
  "findTransitionPoints energyEnvelope' duration' =
     (let last30s = filter (\<lambda>e. frame_time e > duration' - 30) energyEnvelope';
          avgEnergy = js_div (foldl (\<lambda>a b. js_add a (frame_energy b)) (Num 0) last30s)
                        (Num (real (length last30s)));
          mixOut = (case find (\<lambda>e. js_lt (frame_energy e) (js_mul avgEnergy (Num 0.5))) (rev last30s) of
                      Some e \<Rightarrow> frame_time e
                    | None \<Rightarrow> duration' - 10)
      in \<lparr>tp_mixOutPoint = mixOut, tp_mixInPoint = 0, tp_duration = duration'\<rparr>)"

text \<open>
  \<^verbatim>\<open>analyze(audioBuffer)\<close>: \<open>None\<close> when a loop does not return, \<open>Some (Inl e)\<close> when
  the call throws \<open>e\<close>, \<open>Some (Inr r)\<close> when it returns \<open>r\<close>. For a sample rate that is not
  positive no loop body runs, so the signs of \<open>hopSize\<close> and \<open>windowSize\<close> are never read.
\<close>

definition analyze :: "audio_buffer \<Rightarrow> (js_error + track_analysis) option" where
  "analyze buf =
     (let hopSize = nat \<lfloor>sampleRate buf * 0.05\<rfloor>;
          windowSize = nat \<lfloor>sampleRate buf * 0.1\<rfloor>
      in case analyze_loop buf hopSize windowSize 0 [] [] None of
           None \<Rightarrow> None
         | Some (energyEnvelope', fluxValues) \<Rightarrow>
             (case detectBeatsAdvanced energyEnvelope' fluxValues of
                Inl err \<Rightarrow> Some (Inl err)
              | Inr beats' \<Rightarrow>
                  (case detectKey buf of
                     None \<Rightarrow> None
                   | Some key' \<Rightarrow>
                       Some (Inr
                         \<lparr>duration = buffer_duration buf,
                          tempo = calculateTempo beats',
                          key = key',
                          beats = beats',
                          energyEnvelope = energyEnvelope',
                          transitionPoints = findTransitionPoints energyEnvelope' (buffer_duration buf),
                          averageEnergy =
                            js_div (foldl (\<lambda>a b. js_add a (frame_energy b)) (Num 0) energyEnvelope')
                              (Num (real (length energyEnvelope'))),
                          peakEnergy = Math_max (map frame_energy energyEnvelope')\<rparr>))))"

text \<open>
  Proof device: every Camelot code of \<open>keyToCamelot\<close> with the list
  \<^verbatim>\<open>getCompatibleKeys\<close> computes for it.
\<close>

definition camelot_rows :: "(string \<times> string list) list" where
  "camelot_rows = map (\<lambda>kc. (snd kc, getCompatibleKeys (snd kc))) keyToCamelot"

section \<open>Properties of the key-compatibility tests\<close>

lemma camelot_rows_eval:
  "camelot_rows =
 [(''01A'', [''01A'', ''02A'', ''12A'', ''01B'']),
  (''02A'', [''02A'', ''03A'', ''01A'', ''02B'']),
  (''03A'', [''03A'', ''04A'', ''02A'', ''03B'']),
  (''04A'', [''04A'', ''05A'', ''03A'', ''04B'']),
  (''05A'', [''05A'', ''06A'', ''04A'', ''05B'']),
  (''06A'', [''06A'', ''07A'', ''05A'', ''06B'']),
  (''07A'', [''07A'', ''08A'', ''06A'', ''07B'']),
  (''08A'', [''08A'', ''09A'', ''07A'', ''08B'']),
  (''09A'', [''09A'', ''10A'', ''08A'', ''09B'']),
  (''10A'', [''10A'', ''11A'', ''09A'', ''10B'']),
  (''11A'', [''11A'', ''12A'', ''10A'', ''11B'']),
  (''12A'', [''12A'', ''01A'', ''11A'', ''12B'']),
  (''01B'', [''01B'', ''02B'', ''12B'', ''01A'']),
  (''02B'', [''02B'', ''03B'', ''01B'', ''02A'']),
  (''03B'', [''03B'', ''04B'', ''02B'', ''03A'']),
  (''04B'', [''04B'', ''05B'', ''03B'', ''04A'']),
  (''05B'', [''05B'', ''06B'', ''04B'', ''05A'']),
  (''06B'', [''06B'', ''07B'', ''05B'', ''06A'']),
  (''07B'', [''07B'', ''08B'', ''06B'', ''07A'']),
  (''08B'', [''08B'', ''09B'', ''07B'', ''08A'']),
  (''09B'', [''09B'', ''10B'', ''08B'', ''09A'']),
  (''10B'', [''10B'', ''11B'', ''09B'', ''10A'']),
  (''11B'', [''11B'', ''12B'', ''10B'', ''11A'']),
  (''12B'', [''12B'', ''01B'', ''11B'', ''12A''])]"
  by code_simp

lemma camelot_rows_symmetric:
  "list_all (\<lambda>r1. list_all (\<lambda>r2. (fst r2 \<in> set (snd r1)) = (fst r1 \<in> set (snd r2)))
     camelot_rows) camelot_rows"
  unfolding camelot_rows_eval by simp

lemma keyToCamelot_distinct: "distinct (map fst keyToCamelot)"
  by (simp add: keyToCamelot_def)

lemma keyToCamelot_length: "length keyToCamelot = 24"
  by (simp add: keyToCamelot_def)

lemma keyToCamelot_nonempty: "list_all (\<lambda>kc. snd kc \<noteq> []) keyToCamelot"
  by (simp add: keyToCamelot_def)

lemma CAMELOT_WHEEL_distinct: "distinct (map fst CAMELOT_WHEEL)"
  by (simp add: CAMELOT_WHEEL_def)

lemma CAMELOT_WHEEL_length: "length CAMELOT_WHEEL = 24"
  by (simp add: CAMELOT_WHEEL_def)

lemma isCompatible_defined:
  assumes a: "(a, ca) \<in> set keyToCamelot" and b: "(b, cb) \<in> set keyToCamelot"
  shows "isCompatible a b = (cb \<in> set (getCompatibleKeys ca))"
proof -
  have "map_of keyToCamelot a = Some ca" "map_of keyToCamelot b = Some cb"
    using a b keyToCamelot_distinct by simp_all
  moreover have "ca \<noteq> []" "cb \<noteq> []"
    using a b keyToCamelot_nonempty by (auto simp: list_all_iff)
  ultimately show ?thesis
    by (simp add: isCompatible_def)
qed

lemma isCompatible_sym:
  assumes "a \<in> set (map fst keyToCamelot)" and "b \<in> set (map fst keyToCamelot)"
  shows "isCompatible a b = isCompatible b a"
proof -
  from assms obtain ca cb
    where a: "(a, ca) \<in> set keyToCamelot" and b: "(b, cb) \<in> set keyToCamelot"
    by auto
  have ra: "(ca, getCompatibleKeys ca) \<in> set camelot_rows"
    using a by (force simp: camelot_rows_def)
  have rb: "(cb, getCompatibleKeys cb) \<in> set camelot_rows"
    using b by (force simp: camelot_rows_def)
  have "(cb \<in> set (getCompatibleKeys ca)) = (ca \<in> set (getCompatibleKeys cb))"
    using camelot_rows_symmetric ra rb unfolding list_all_iff by fastforce
  then show ?thesis
    by (simp add: isCompatible_defined [OF a b] isCompatible_defined [OF b a])
qed

lemma checkKeyCompatibility_sym: "checkKeyCompatibility a b = checkKeyCompatibility b a"
  by (auto simp: checkKeyCompatibility_def Let_def abs_minus_commute split: option.splits)

text \<open>
  Claim C1. Key compatibility is symmetric on the 24 keys each implementation defines:
  \<^verbatim>\<open>CamelotWheel.isCompatible\<close> gives the same answer for \<open>(a, b)\<close> and \<open>(b, a)\<close> on the keys
  of \<^verbatim>\<open>keyToCamelot\<close>, and \<^verbatim>\<open>checkKeyCompatibility\<close> returns the same object for \<open>(a, b)\<close>
  and \<open>(b, a)\<close> on the keys of \<^verbatim>\<open>CAMELOT_WHEEL\<close>.
\<close>

theorem key_compatibility_symmetric:
  "(\<forall>a \<in> set (map fst keyToCamelot). \<forall>b \<in> set (map fst keyToCamelot).
      isCompatible a b = isCompatible b a) \<and>
   (\<forall>a \<in> set (map fst CAMELOT_WHEEL). \<forall>b \<in> set (map fst CAMELOT_WHEEL).
      checkKeyCompatibility a b = checkKeyCompatibility b a)"
  using isCompatible_sym checkKeyCompatibility_sym by blast

theorem key_compatibility_symmetric_witness:
  "''Bbm'' \<in> set (map fst keyToCamelot) \<and> ''Am'' \<in> set (map fst keyToCamelot) \<and>
   isCompatible ''Bbm'' ''Am'' \<and>
   ''D'' \<in> set (map fst CAMELOT_WHEEL) \<and> ''C'' \<in> set (map fst CAMELOT_WHEEL) \<and>
   compatible (checkKeyCompatibility ''D'' ''C'')"
proof -
  have k: "''Bbm'' \<in> set (map fst keyToCamelot)" "''Am'' \<in> set (map fst keyToCamelot)"
    by (simp_all add: keyToCamelot_def)
  have w: "''D'' \<in> set (map fst CAMELOT_WHEEL)" "''C'' \<in> set (map fst CAMELOT_WHEEL)"
    by (simp_all add: CAMELOT_WHEEL_def)
  have "isCompatible ''Am'' ''Bbm''"
    by code_simp
  moreover have "compatible (checkKeyCompatibility ''C'' ''D'')"
    by code_simp
  ultimately show ?thesis
    using key_compatibility_symmetric k w by metis
qed

text \<open>
  Claim C2. The two known compatibility facts, evaluated on the code: for the pair
  \<open>(Am, C)\<close> \<^verbatim>\<open>checkKeyCompatibility\<close> answers compatible with reason
  \<^verbatim>\<open>Relative major/minor\<close>, but \<^verbatim>\<open>CamelotWheel.isCompatible\<close> answers false, because \<open>C\<close> is
  not a key of \<^verbatim>\<open>keyToCamelot\<close> and stands for itself, while the codes compatible with
  \<open>Am\<close> are \<open>01B\<close>, \<open>02B\<close>, \<open>12B\<close> and \<open>01A\<close>. For the pair \<open>(Am, F#)\<close> both answer
  incompatible.
\<close>

theorem known_compatibility_facts_on_code:
  "isCompatible ''Am'' ''C'' = False \<and>
   isCompatible ''Am'' ''F#'' = False \<and>
   checkKeyCompatibility ''Am'' ''C'' =
     \<lparr>compatible = True, distance = Some 1, reason = ''Relative major/minor''\<rparr> \<and>
   checkKeyCompatibility ''Am'' ''F#'' =
     \<lparr>compatible = False, distance = Some 6, reason = ''Dissonant''\<rparr> \<and>
   map_of keyToCamelot ''C'' = None \<and>
   getCompatibleKeys ''01B'' = [''01B'', ''02B'', ''12B'', ''01A'']"
proof -
  have "isCompatible ''Am'' ''C'' = False" by code_simp
  moreover have "isCompatible ''Am'' ''F#'' = False" by code_simp
  moreover have "checkKeyCompatibility ''Am'' ''C'' =
     \<lparr>compatible = True, distance = Some 1, reason = ''Relative major/minor''\<rparr>" by code_simp
  moreover have "checkKeyCompatibility ''Am'' ''F#'' =
     \<lparr>compatible = False, distance = Some 6, reason = ''Dissonant''\<rparr>" by code_simp
  moreover have "map_of keyToCamelot ''C'' = None" by code_simp
  moreover have "getCompatibleKeys ''01B'' = [''01B'', ''02B'', ''12B'', ''01A'']" by code_simp
  ultimately show ?thesis by blast
qed

text \<open>
  Claim C10. \<^verbatim>\<open>checkKeyCompatibility\<close> accepts every pair of defined keys whose circular
  distance on the wheel is exactly 2, with reason \<^verbatim>\<open>Energy boost zone\<close>, whatever the two
  mode letters are.
\<close>

theorem distance_two_is_energy_boost_zone:
  assumes "map_of CAMELOT_WHEEL key1 = Some k1" and "map_of CAMELOT_WHEEL key2 = Some k2"
    and "min \<bar>number k1 - number k2\<bar> (12 - \<bar>number k1 - number k2\<bar>) = 2"
  shows "checkKeyCompatibility key1 key2 =
           \<lparr>compatible = True, distance = Some 3, reason = ''Energy boost zone''\<rparr>"
proof -
  have "number k1 \<noteq> number k2"
    using assms(3) by auto
  moreover have "key1 \<noteq> key2"
    using assms calculation by auto
  ultimately show ?thesis
    using assms by (simp add: checkKeyCompatibility_def Let_def)
qed

theorem distance_two_is_energy_boost_zone_witness:
  "map_of CAMELOT_WHEEL ''C'' = Some \<lparr>number = 8, letter = B, name = ''C Major''\<rparr> \<and>
   map_of CAMELOT_WHEEL ''Bm'' = Some \<lparr>number = 10, letter = A, name = ''B Minor''\<rparr> \<and>
   checkKeyCompatibility ''C'' ''Bm'' =
     \<lparr>compatible = True, distance = Some 3, reason = ''Energy boost zone''\<rparr>"
proof -
  have c: "map_of CAMELOT_WHEEL ''C'' = Some \<lparr>number = 8, letter = B, name = ''C Major''\<rparr>"
    by (simp add: CAMELOT_WHEEL_def)
  have bm: "map_of CAMELOT_WHEEL ''Bm'' = Some \<lparr>number = 10, letter = A, name = ''B Minor''\<rparr>"
    by (simp add: CAMELOT_WHEEL_def)
  show ?thesis
    using c bm distance_two_is_energy_boost_zone [OF c bm] by simp
qed

section \<open>Properties of Map objects and of the two caches\<close>

lemma map_of_map_set: "map_of (map_set h k v) = (map_of h)(k \<mapsto> v)"
  by (induction h) (auto simp: fun_eq_iff)

lemma keys_map_set: "fst ` set (map_set h k v) = insert k (fst ` set h)"
  by (induction h) auto

lemma distinct_map_set: "distinct (map fst h) \<Longrightarrow> distinct (map fst (map_set h k v))"
proof (induction h)
  case Nil
  then show ?case by simp
next
  case (Cons e h)
  then show ?case using keys_map_set [of h k v] by auto
qed

lemma map_set_fresh: "k \<notin> set (map fst m) \<Longrightarrow> map_set m k v = m @ [(k, v)]"
  by (induction m) auto

lemma map_delete_first:
  "distinct (map fst (e # m)) \<Longrightarrow> map_delete (e # m) (fst e) = m"
proof -
  assume "distinct (map fst (e # m))"
  then have "\<forall>x \<in> set m. fst x \<noteq> fst e"
    by (metis distinct.simps(2) image_eqI list.simps(9) set_map)
  then have "filter (\<lambda>x. fst x \<noteq> fst e) m = m"
    by (rule filter_True)
  then show ?thesis
    by (simp add: map_delete_def)
qed

lemma addToCache_keys:
  assumes "distinct (map fst (trackCache e))" and "k \<notin> set (map fst (trackCache e))"
    and "1 \<le> maxCacheSize e"
  shows "map fst (trackCache (addToCache e k d)) =
           (if length (trackCache e) \<ge> maxCacheSize e then tl (map fst (trackCache e))
            else map fst (trackCache e)) @ [k]"
proof (cases "trackCache e")
  case Nil
  then show ?thesis using assms by (simp add: addToCache_def map_first_key_def)
next
  case (Cons x xs)
  have d: "map_delete (x # xs) (fst x) = xs"
    using assms(1) Cons map_delete_first by metis
  have "k \<notin> set (map fst xs)" using assms(2) Cons by simp
  then have "map_set xs k d = xs @ [(k, d)]" by (rule map_set_fresh)
  moreover have "map_set (x # xs) k d = (x # xs) @ [(k, d)]"
    using assms(2) Cons map_set_fresh by metis
  ultimately show ?thesis
    using Cons d by (simp add: addToCache_def map_first_key_def Let_def)
qed

lemma addToCache_maxCacheSize: "maxCacheSize (addToCache e k d) = maxCacheSize e"
  by (simp add: addToCache_def Let_def)

lemma addToCache_all_maxCacheSize: "maxCacheSize (addToCache_all e kds) = maxCacheSize e"
  unfolding addToCache_all_def
  by (induction kds arbitrary: e) (simp_all add: addToCache_maxCacheSize)

text \<open>Oldest-first eviction: the cache holds the last \<open>maxCacheSize\<close> keys inserted.\<close>

lemma addToCache_all_keys:
  assumes "trackCache e = []" and "1 \<le> maxCacheSize e" and "distinct (map fst kds)"
  shows "map fst (trackCache (addToCache_all e kds)) =
           drop (length kds - maxCacheSize e) (map fst kds)"
  using assms(3)
proof (induction kds rule: rev_induct)
  case Nil
  then show ?case using assms(1) by (simp add: addToCache_all_def)
next
  case (snoc kd kds)
  let ?e = "addToCache_all e kds"
  let ?n = "maxCacheSize e"
  have ih: "map fst (trackCache ?e) = drop (length kds - ?n) (map fst kds)"
    using snoc by simp
  have dist: "distinct (map fst (trackCache ?e))"
    using snoc.prems ih by simp
  have fresh: "fst kd \<notin> set (map fst (trackCache ?e))"
    using snoc.prems ih by (auto dest: in_set_dropD)
  have len: "length (trackCache ?e) = length kds - (length kds - ?n)"
    using ih by (metis length_drop length_map)
  have step: "addToCache_all e (kds @ [kd]) = addToCache ?e (fst kd) (snd kd)"
    by (simp add: addToCache_all_def)
  have "map fst (trackCache (addToCache ?e (fst kd) (snd kd))) =
          (if length (trackCache ?e) \<ge> ?n then tl (map fst (trackCache ?e))
           else map fst (trackCache ?e)) @ [fst kd]"
    using addToCache_keys [OF dist fresh] assms(2) by (simp add: addToCache_all_maxCacheSize)
  also have "\<dots> = drop (length (kds @ [kd]) - ?n) (map fst (kds @ [kd]))"
  proof (cases "length kds \<ge> ?n")
    case True
    then have "length (trackCache ?e) \<ge> ?n" using len by simp
    moreover have "Suc 0 - ?n = 0" using assms(2) by simp
    ultimately show ?thesis using True ih by (simp add: tl_drop Suc_diff_le drop_Suc)
  next
    case False
    then have "\<not> length (trackCache ?e) \<ge> ?n" using len by simp
    then show ?thesis using False ih by simp
  qed
  finally show ?case using step by simp
qed

text \<open>The analysis cache never evicts: every analysed track stays.\<close>

lemma getTrackAnalysis_all_keys:
  assumes "distinct (map fst (analysisCache e) @ map fst kas)"
  shows "map fst (analysisCache (getTrackAnalysis_all e (map (\<lambda>ka. (fst ka, Some (snd ka))) kas))) =
           map fst (analysisCache e) @ map fst kas"
  using assms
proof (induction kas arbitrary: e)
  case Nil
  then show ?case by (simp add: getTrackAnalysis_all_def)
next
  case (Cons ka kas)
  let ?e = "snd (getTrackAnalysis e (fst ka) (Some (snd ka)))"
  have fresh: "fst ka \<notin> set (map fst (analysisCache e))"
    using Cons.prems by auto
  then have "map_of (analysisCache e) (fst ka) = None"
    by (simp add: map_of_eq_None_iff)
  then have "analysisCache ?e = map_set (analysisCache e) (fst ka) (snd ka)"
    by (simp add: getTrackAnalysis_def map_has_def)
  then have c: "analysisCache ?e = analysisCache e @ [(fst ka, snd ka)]"
    using fresh by (simp add: map_set_fresh)
  then have "distinct (map fst (analysisCache ?e) @ map fst kas)"
    using Cons.prems by simp
  from Cons.IH [OF this] c show ?case
    by (simp add: getTrackAnalysis_all_def)
qed

text \<open>
  Claim C5, as amended. The loaded-track cache of \<^verbatim>\<open>AutoMixEngineHowler\<close> is bounded with
  oldest-first eviction: \<open>maxCacheSize + 5\<close> insertions of distinct track ids into the empty
  cache leave exactly \<open>maxCacheSize\<close> entries, the ids inserted last, and the 5 earliest
  ids are absent. The analysis cache of \<^verbatim>\<open>AutoMixEngine\<close> is not bounded: after any
  number of successful analyses of distinct tracks it holds every one of them, in
  insertion order.
\<close>

theorem track_cache_bounded_analysis_cache_unbounded:
  "(trackCache e = [] \<and> 1 \<le> maxCacheSize e \<and> distinct (map fst kds) \<and>
    length kds = maxCacheSize e + 5 \<longrightarrow>
      map fst (trackCache (addToCache_all e kds)) = drop 5 (map fst kds) \<and>
      length (trackCache (addToCache_all e kds)) = maxCacheSize e \<and>
      set (take 5 (map fst kds)) \<inter> set (map fst (trackCache (addToCache_all e kds))) = {}) \<and>
   (analysisCache m = [] \<and> distinct (map fst kas) \<longrightarrow>
      map fst (analysisCache (getTrackAnalysis_all m (map (\<lambda>ka. (fst ka, Some (snd ka))) kas))) =
        map fst kas)"
proof (intro conjI impI)
  assume a: "trackCache e = [] \<and> 1 \<le> maxCacheSize e \<and> distinct (map fst kds) \<and>
    length kds = maxCacheSize e + 5"
  then have k: "map fst (trackCache (addToCache_all e kds)) = drop 5 (map fst kds)"
    using addToCache_all_keys [of e kds] by simp
  then show "map fst (trackCache (addToCache_all e kds)) = drop 5 (map fst kds)" .
  have "length (map fst (trackCache (addToCache_all e kds))) = maxCacheSize e"
    using a by (simp add: k)
  then show "length (trackCache (addToCache_all e kds)) = maxCacheSize e"
    by simp
  have "distinct (take 5 (map fst kds) @ drop 5 (map fst kds))"
    using a by simp
  then show "set (take 5 (map fst kds)) \<inter> set (map fst (trackCache (addToCache_all e kds))) = {}"
    unfolding k distinct_append by blast
next
  assume "analysisCache m = [] \<and> distinct (map fst kas)"
  then show "map fst (analysisCache (getTrackAnalysis_all m (map (\<lambda>ka. (fst ka, Some (snd ka))) kas))) =
        map fst kas"
    using getTrackAnalysis_all_keys [of m kas] by simp
qed

theorem track_cache_bounded_analysis_cache_unbounded_witness:
  "trackCache (new_engine default_options) = [] \<and>
   maxCacheSize (new_engine default_options) = 30 \<and>
   distinct (map string_of_nat [0..<35]) \<and>
   map fst (trackCache (addToCache_all (new_engine default_options)
      (map (\<lambda>i. (string_of_nat i, track_fixture (string_of_nat i))) [0..<35]))) =
     map string_of_nat [5..<35] \<and>
   length (trackCache (addToCache_all (new_engine default_options)
      (map (\<lambda>i. (string_of_nat i, track_fixture (string_of_nat i))) [0..<35]))) = 30 \<and>
   map fst (analysisCache (getTrackAnalysis_all new_mix_engine
      (map (\<lambda>ka. (fst ka, Some (snd ka)))
         (map (\<lambda>i. (string_of_nat i, waveform_fixture)) [0..<35])))) =
     map string_of_nat [0..<35]"
proof -
  let ?kds = "map (\<lambda>i. (string_of_nat i, track_fixture (string_of_nat i))) [0..<35]"
  let ?kas = "map (\<lambda>i. (string_of_nat i, waveform_fixture)) [0..<35]"
  have d: "distinct (map string_of_nat [0..<35])"
    by code_simp
  have f: "map fst ?kds = map string_of_nat [0..<35]" "map fst ?kas = map string_of_nat [0..<35]"
    by (simp_all add: comp_def)
  have e: "trackCache (new_engine default_options) = []"
    "maxCacheSize (new_engine default_options) = 30"
    "analysisCache new_mix_engine = []"
    by (simp_all add: new_engine_def new_mix_engine_def)
  have dr: "drop 5 (map string_of_nat [0..<35]) = map string_of_nat [5..<35]"
    by (simp add: drop_map)
  from track_cache_bounded_analysis_cache_unbounded
    [of "new_engine default_options" ?kds new_mix_engine ?kas]
  show ?thesis
    using d e dr by (simp only: f) simp
qed

text \<open>
  The claim as stated fails for the analysis cache: 35 analyses of distinct tracks leave 35
  entries, not the 30 a bound would leave, and the first track analysed is still cached.
\<close>

theorem analysis_cache_keeps_everything:
  "length (analysisCache (getTrackAnalysis_all new_mix_engine
      (map (\<lambda>i. (string_of_nat i, Some waveform_fixture)) [0..<35]))) = 35 \<and>
   map_has (analysisCache (getTrackAnalysis_all new_mix_engine
      (map (\<lambda>i. (string_of_nat i, Some waveform_fixture)) [0..<35]))) (string_of_nat 0)"
  by code_simp

section \<open>Properties of the two transition planners\<close>

lemma last_filter_holds:
  assumes "filter P xs \<noteq> []"
  shows "P (last (filter P xs))"
  using assms by (metis last_in_set mem_Collect_eq set_filter)

lemma howler_timing_duration:
  "timing_duration (calculateTransitionTiming_howler e) = crossfadeDuration (options e)"
  by (simp add: calculateTransitionTiming_howler_def Let_def split: option.splits)

lemma howler_currentOut_le:
  "currentOut (calculateTransitionTiming_howler e) \<le>
     (case (currentAnalysis e, nextAnalysis e) of
        (Some cur, Some nxt) \<Rightarrow> duration cur
      | _ \<Rightarrow> (case currentHowl e of Some h \<Rightarrow> howl_duration h | None \<Rightarrow> 0))
     * transitionOverlap (options e)"
proof (cases "currentAnalysis e")
  case None
  then show ?thesis by (simp add: calculateTransitionTiming_howler_def Let_def)
next
  case (Some cur)
  show ?thesis
  proof (cases "nextAnalysis e")
    case None
    then show ?thesis using Some by (simp add: calculateTransitionTiming_howler_def Let_def)
  next
    case (Some nxt)
    let ?t = "duration cur * transitionOverlap (options e)"
    let ?bs = "filter (\<lambda>b. time b \<le> ?t) (beats cur)"
    have "?bs \<noteq> [] \<Longrightarrow> time (last ?bs) \<le> ?t"
      using last_filter_holds [of "\<lambda>b. time b \<le> ?t" "beats cur"] by simp
    then show ?thesis
      using Some \<open>currentAnalysis e = Some cur\<close>
      by (simp add: calculateTransitionTiming_howler_def Let_def)
  qed
qed

lemma mix_timing_clamped:
  assumes "calculateTransitionTiming m c n = Inr plan"
  shows "mix_duration plan = mix_crossfadeDuration (mix_engine_options m) \<and>
         mixOutPoint plan \<ge> mix_duration plan"
  using assms by (auto simp: calculateTransitionTiming_def Let_def split: option.splits)

text \<open>The mix-out point of the Howler planner, exactly.\<close>

lemma howler_currentOut_exact:
  "currentOut (calculateTransitionTiming_howler e) =
     (case (currentAnalysis e, nextAnalysis e) of
        (Some cur, Some nxt) \<Rightarrow>
          (if filter (\<lambda>b. time b \<le> duration cur * transitionOverlap (options e)) (beats cur) = []
           then duration cur * transitionOverlap (options e)
           else time (last (filter (\<lambda>b. time b \<le> duration cur * transitionOverlap (options e))
                              (beats cur))))
      | _ \<Rightarrow>
          (case currentHowl e of Some h \<Rightarrow> howl_duration h | None \<Rightarrow> 0)
            * transitionOverlap (options e))"
proof (cases "currentAnalysis e")
  case None
  then show ?thesis by (simp add: calculateTransitionTiming_howler_def Let_def)
next
  case cur: (Some cur)
  show ?thesis
  proof (cases "nextAnalysis e")
    case None
    then show ?thesis using cur by (simp add: calculateTransitionTiming_howler_def Let_def)
  next
    case (Some nxt)
    have "filter (\<lambda>b. time b \<le> duration cur * transitionOverlap (options e)) (beats cur) \<noteq> []
            \<Longrightarrow> beats cur \<noteq> []"
      by auto
    then show ?thesis
      using cur Some by (auto simp: calculateTransitionTiming_howler_def Let_def)
  qed
qed

text \<open>The mix-out point of the \<^verbatim>\<open>AutoMixEngine\<close> planner, exactly.\<close>

lemma mix_timing_exact:
  assumes "calculateTransitionTiming m c n = Inr plan"
  shows "\<exists>cur. c = Some cur \<and>
           mixOutPoint plan =
             max ((if outroTrimEnabled (mix_engine_options m) \<and> outroTrimPoint cur \<noteq> 0 \<and>
                      wf_duration cur - outroTrimPoint cur > 3
                   then outroTrimPoint cur else wf_duration cur)
                  - mix_crossfadeDuration (mix_engine_options m))
                 (mix_crossfadeDuration (mix_engine_options m)) \<and>
           mixInPoint plan = 0"
  using assms by (auto simp: calculateTransitionTiming_def Let_def split: option.splits)

text \<open>
  Claim C3, as amended. In both planners the crossfade duration of the plan is the
  policy's \<^verbatim>\<open>crossfadeDuration\<close>. \<^verbatim>\<open>AutoMixEngine.calculateTransitionTiming\<close> clamps the
  mix-out point of every plan it returns to at least that duration: it is the larger of
  the crossfade duration and the end of the track (the outro trim point, when trimming is
  on and more than 3 s follow it) minus the crossfade duration.
  \<^verbatim>\<open>AutoMixEngineHowler._calculateTransitionTiming\<close> does not clamp: with both analyses
  present its mix-out point is the analysed duration times \<^verbatim>\<open>transitionOverlap\<close>, moved
  back to the time of the last beat of the list at or before that point when there is
  one; with an analysis missing it is the \<^verbatim>\<open>Howl\<close>'s duration (0 without a \<^verbatim>\<open>Howl\<close>) times
  \<^verbatim>\<open>transitionOverlap\<close>. So it is at most the duration times \<^verbatim>\<open>transitionOverlap\<close>,
  whatever the crossfade duration is.
\<close>

theorem transition_timing_duration_and_clamp:
  "timing_duration (calculateTransitionTiming_howler e) = crossfadeDuration (options e) \<and>
   currentOut (calculateTransitionTiming_howler e) \<le>
     (case (currentAnalysis e, nextAnalysis e) of
        (Some cur, Some nxt) \<Rightarrow> duration cur
      | _ \<Rightarrow> (case currentHowl e of Some h \<Rightarrow> howl_duration h | None \<Rightarrow> 0))
     * transitionOverlap (options e) \<and>
   currentOut (calculateTransitionTiming_howler e) =
     (case (currentAnalysis e, nextAnalysis e) of
        (Some cur, Some nxt) \<Rightarrow>
          (if filter (\<lambda>b. time b \<le> duration cur * transitionOverlap (options e)) (beats cur) = []
           then duration cur * transitionOverlap (options e)
           else time (last (filter (\<lambda>b. time b \<le> duration cur * transitionOverlap (options e))
                              (beats cur))))
      | _ \<Rightarrow>
          (case currentHowl e of Some h \<Rightarrow> howl_duration h | None \<Rightarrow> 0)
            * transitionOverlap (options e)) \<and>
   (calculateTransitionTiming m c n = Inr plan \<longrightarrow>
      mix_duration plan = mix_crossfadeDuration (mix_engine_options m) \<and>
      mixOutPoint plan \<ge> mix_duration plan \<and>
      (\<exists>cur. c = Some cur \<and>
         mixOutPoint plan =
           max ((if outroTrimEnabled (mix_engine_options m) \<and> outroTrimPoint cur \<noteq> 0 \<and>
                    wf_duration cur - outroTrimPoint cur > 3
                 then outroTrimPoint cur else wf_duration cur)
                - mix_crossfadeDuration (mix_engine_options m))
               (mix_crossfadeDuration (mix_engine_options m)) \<and>
         mixInPoint plan = 0))"
proof (intro conjI impI)
  show "timing_duration (calculateTransitionTiming_howler e) = crossfadeDuration (options e)"
    by (rule howler_timing_duration)
  show "currentOut (calculateTransitionTiming_howler e) \<le>
     (case (currentAnalysis e, nextAnalysis e) of
        (Some cur, Some nxt) \<Rightarrow> duration cur
      | _ \<Rightarrow> (case currentHowl e of Some h \<Rightarrow> howl_duration h | None \<Rightarrow> 0))
     * transitionOverlap (options e)"
    by (rule howler_currentOut_le)
  show "currentOut (calculateTransitionTiming_howler e) =
     (case (currentAnalysis e, nextAnalysis e) of
        (Some cur, Some nxt) \<Rightarrow>
          (if filter (\<lambda>b. time b \<le> duration cur * transitionOverlap (options e)) (beats cur) = []
           then duration cur * transitionOverlap (options e)
           else time (last (filter (\<lambda>b. time b \<le> duration cur * transitionOverlap (options e))
                              (beats cur))))
      | _ \<Rightarrow>
          (case currentHowl e of Some h \<Rightarrow> howl_duration h | None \<Rightarrow> 0)
            * transitionOverlap (options e))"
    by (rule howler_currentOut_exact)
next
  assume p: "calculateTransitionTiming m c n = Inr plan"
  show "mix_duration plan = mix_crossfadeDuration (mix_engine_options m)"
    and "mixOutPoint plan \<ge> mix_duration plan"
    using mix_timing_clamped [OF p] by simp_all
  show "\<exists>cur. c = Some cur \<and>
         mixOutPoint plan =
           max ((if outroTrimEnabled (mix_engine_options m) \<and> outroTrimPoint cur \<noteq> 0 \<and>
                    wf_duration cur - outroTrimPoint cur > 3
                 then outroTrimPoint cur else wf_duration cur)
                - mix_crossfadeDuration (mix_engine_options m))
               (mix_crossfadeDuration (mix_engine_options m)) \<and>
         mixInPoint plan = 0"
    using p by (rule mix_timing_exact)
qed

theorem transition_timing_duration_and_clamp_witness:
  "calculateTransitionTiming new_mix_engine (Some waveform_fixture) None =
     Inr \<lparr>mixOutPoint = 188, mixInPoint = 0, mix_duration = 12\<rparr> \<and>
   mix_duration \<lparr>mixOutPoint = 188, mixInPoint = 0, mix_duration = 12\<rparr> =
     mix_crossfadeDuration (mix_engine_options new_mix_engine) \<and>
   mixOutPoint \<lparr>mixOutPoint = 188, mixInPoint = 0, mix_duration = 12\<rparr>
     \<ge> mix_duration \<lparr>mixOutPoint = 188, mixInPoint = 0, mix_duration = 12\<rparr> \<and>
   map time (steady_beats 100 40 4) = [100, 140, 180, 220] \<and>
   currentOut (calculateTransitionTiming_howler
      ((new_engine default_options)
         \<lparr>currentAnalysis := Some ((beatless_analysis 200 0)\<lparr>beats := steady_beats 100 40 4\<rparr>),
          nextAnalysis := Some (beatless_analysis 200 0)\<rparr>)) = 180"
proof -
  let ?e = "(new_engine default_options)
         \<lparr>currentAnalysis := Some ((beatless_analysis 200 0)\<lparr>beats := steady_beats 100 40 4\<rparr>),
          nextAnalysis := Some (beatless_analysis 200 0)\<rparr>"
  have p: "calculateTransitionTiming new_mix_engine (Some waveform_fixture) None =
     Inr \<lparr>mixOutPoint = 188, mixInPoint = 0, mix_duration = 12\<rparr>"
    by (simp add: calculateTransitionTiming_def new_mix_engine_def waveform_fixture_def)
  have u: "[0..<4] = [0, 1, 2, 3]"
    by (simp add: upt_rec)
  have b: "map time (steady_beats 100 40 4) = [100, 140, 180, 220]"
    by (simp add: steady_beats_def u)
  have "currentOut (calculateTransitionTiming_howler ?e) =
     (case (currentAnalysis ?e, nextAnalysis ?e) of
        (Some cur, Some nxt) \<Rightarrow>
          (if filter (\<lambda>b. time b \<le> duration cur * transitionOverlap (options ?e)) (beats cur) = []
           then duration cur * transitionOverlap (options ?e)
           else time (last (filter (\<lambda>b. time b \<le> duration cur * transitionOverlap (options ?e))
                              (beats cur))))
      | _ \<Rightarrow>
          (case currentHowl ?e of Some h \<Rightarrow> howl_duration h | None \<Rightarrow> 0)
            * transitionOverlap (options ?e))"
    using transition_timing_duration_and_clamp [where e = ?e] by blast
  also have "\<dots> = 180"
    by (simp add: new_engine_def default_options_def beatless_analysis_def steady_beats_def u)
  finally have h: "currentOut (calculateTransitionTiming_howler ?e) = 180" .
  from p transition_timing_duration_and_clamp
    [where m = new_mix_engine and c = "Some waveform_fixture" and n = None
       and plan = "\<lparr>mixOutPoint = 188, mixInPoint = 0, mix_duration = 12\<rparr>"]
  have "mix_duration \<lparr>mixOutPoint = 188, mixInPoint = 0, mix_duration = 12\<rparr> =
     mix_crossfadeDuration (mix_engine_options new_mix_engine) \<and>
   mixOutPoint \<lparr>mixOutPoint = 188, mixInPoint = 0, mix_duration = 12\<rparr>
     \<ge> mix_duration \<lparr>mixOutPoint = 188, mixInPoint = 0, mix_duration = 12\<rparr>"
    by blast
  with p b h show ?thesis by blast
qed

text \<open>
  The claim as stated fails for the Howler planner: for a 10 s track and the default
  policy (crossfade 16 s, overlap 0.95) the mix-out point is 9.5 s, before one
  crossfade length has played.
\<close>

theorem howler_mix_out_before_crossfade_length:
  "currentOut (calculateTransitionTiming_howler
      ((new_engine default_options)
         \<lparr>currentHowl := Some \<lparr>howl_duration = 10\<rparr>,
          currentAnalysis := Some (beatless_analysis 10 0),
          nextAnalysis := Some (beatless_analysis 200 0)\<rparr>)) = 9.5 \<and>
   timing_duration (calculateTransitionTiming_howler
      ((new_engine default_options)
         \<lparr>currentHowl := Some \<lparr>howl_duration = 10\<rparr>,
          currentAnalysis := Some (beatless_analysis 10 0),
          nextAnalysis := Some (beatless_analysis 200 0)\<rparr>)) = 16 \<and>
   \<not> currentOut (calculateTransitionTiming_howler
      ((new_engine default_options)
         \<lparr>currentHowl := Some \<lparr>howl_duration = 10\<rparr>,
          currentAnalysis := Some (beatless_analysis 10 0),
          nextAnalysis := Some (beatless_analysis 200 0)\<rparr>))
     \<ge> timing_duration (calculateTransitionTiming_howler
      ((new_engine default_options)
         \<lparr>currentHowl := Some \<lparr>howl_duration = 10\<rparr>,
          currentAnalysis := Some (beatless_analysis 10 0),
          nextAnalysis := Some (beatless_analysis 200 0)\<rparr>))"
  by (simp add: calculateTransitionTiming_howler_def new_engine_def default_options_def
      beatless_analysis_def Let_def)

text \<open>
  Claim C6, as amended. With the \<^verbatim>\<open>tempoMatch\<close> option on (the default) and both analyses
  present, the planner's \<^verbatim>\<open>tempoRatio\<close> is the ratio \<open>current.tempo / next.tempo\<close> when both
  tempos are positive and the ratio lies in \<open>[0.9, 1.1]\<close>, and 1 otherwise; with
  \<^verbatim>\<open>tempoMatch\<close> off, or an analysis missing, it is always 1. For tempos \<open>(100, 140)\<close> it
  is 1; for tempos \<open>(120, 126)\<close> with \<^verbatim>\<open>tempoMatch\<close> on it is \<open>120 / 126\<close>, within 0.001
  of 0.952.
\<close>

theorem tempoRatio_rule:
  "(currentAnalysis e = Some cur \<and> nextAnalysis e = Some nxt \<longrightarrow>
      tempoRatio (calculateTransitionTiming_howler e) =
        (if tempoMatch (options e) \<and> tempo cur > 0 \<and> tempo nxt > 0 \<and>
            0.9 \<le> tempo cur / tempo nxt \<and> tempo cur / tempo nxt \<le> 1.1
         then tempo cur / tempo nxt else 1)) \<and>
   (currentAnalysis e = None \<or> nextAnalysis e = None \<longrightarrow>
      tempoRatio (calculateTransitionTiming_howler e) = 1) \<and>
   (currentAnalysis e = Some cur \<and> nextAnalysis e = Some nxt \<and>
    tempo cur = 100 \<and> tempo nxt = 140 \<longrightarrow>
      tempoRatio (calculateTransitionTiming_howler e) = 1) \<and>
   (currentAnalysis e = Some cur \<and> nextAnalysis e = Some nxt \<and> tempoMatch (options e) \<and>
    tempo cur = 120 \<and> tempo nxt = 126 \<longrightarrow>
      tempoRatio (calculateTransitionTiming_howler e) = 120 / 126 \<and>
      \<bar>tempoRatio (calculateTransitionTiming_howler e) - 0.952\<bar> < 0.001)"
  by (auto simp: calculateTransitionTiming_howler_def Let_def split: option.splits)

theorem tempoRatio_rule_witness:
  "tempoRatio (calculateTransitionTiming_howler
      ((new_engine default_options)
         \<lparr>currentAnalysis := Some (beatless_analysis 200 120),
          nextAnalysis := Some (beatless_analysis 200 126)\<rparr>)) = 120 / 126 \<and>
   tempoRatio (calculateTransitionTiming_howler
      ((new_engine default_options)
         \<lparr>currentAnalysis := Some (beatless_analysis 200 100),
          nextAnalysis := Some (beatless_analysis 200 140)\<rparr>)) = 1 \<and>
   tempoRatio (calculateTransitionTiming_howler (new_engine default_options)) = 1"
proof -
  let ?e1 = "(new_engine default_options)
         \<lparr>currentAnalysis := Some (beatless_analysis 200 120),
          nextAnalysis := Some (beatless_analysis 200 126)\<rparr>"
  let ?e2 = "(new_engine default_options)
         \<lparr>currentAnalysis := Some (beatless_analysis 200 100),
          nextAnalysis := Some (beatless_analysis 200 140)\<rparr>"
  have "tempoRatio (calculateTransitionTiming_howler ?e1) = 120 / 126"
    using tempoRatio_rule [of ?e1 "beatless_analysis 200 120" "beatless_analysis 200 126"]
    by (simp add: new_engine_def default_options_def beatless_analysis_def)
  moreover have "tempoRatio (calculateTransitionTiming_howler ?e2) = 1"
    using tempoRatio_rule [of ?e2 "beatless_analysis 200 100" "beatless_analysis 200 140"]
    by (simp add: new_engine_def default_options_def beatless_analysis_def)
  moreover have "tempoRatio (calculateTransitionTiming_howler (new_engine default_options)) = 1"
    using tempoRatio_rule [of "new_engine default_options"]
    by (simp add: new_engine_def)
  ultimately show ?thesis by blast
qed

text \<open>
  The claim as stated fails when the engine is built with \<^verbatim>\<open>tempoMatch: false\<close>: both
  tempos are known, their ratio \<open>120 / 126\<close> lies in \<open>[0.9, 1.1]\<close>, and the planner still
  answers 1.
\<close>

theorem tempoRatio_ignored_without_tempoMatch:
  "tempoRatio (calculateTransitionTiming_howler
      ((new_engine (default_options\<lparr>tempoMatch := False\<rparr>))
         \<lparr>currentAnalysis := Some (beatless_analysis 200 120),
          nextAnalysis := Some (beatless_analysis 200 126)\<rparr>)) = 1 \<and>
   (1::real) \<noteq> 120 / 126 \<and> (0.9::real) \<le> 120 / 126 \<and> (120::real) / 126 \<le> 1.1"
  by (simp add: calculateTransitionTiming_howler_def new_engine_def default_options_def
      beatless_analysis_def Let_def)

section \<open>Properties of tempo estimation\<close>


lemma intervals_spec: "map round_tenth (intervals bs) = rounded_intervals_spec bs"
proof (rule nth_equalityI)
  show "length (map round_tenth (intervals bs)) = length (rounded_intervals_spec bs)"
    by (simp add: intervals_def rounded_intervals_spec_def)
next
  fix i assume "i < length (map round_tenth (intervals bs))"
  then have i: "i < length bs - 1" by (simp add: intervals_def)
  then have "tl bs ! i = bs ! Suc i" by (simp add: nth_tl)
  then show "map round_tenth (intervals bs) ! i = rounded_intervals_spec bs ! i"
    using i by (simp add: intervals_def rounded_intervals_spec_def round_tenth_def
        Math_round_def round_def)
qed

lemma histogram_step_alt:
  "histogram_step h iv = map_set h (round_tenth iv) (hcount h (round_tenth iv) + 1)"
  by (simp add: histogram_step_def round_tenth_def hcount_def Let_def)

lemma hcount_step:
  "hcount (histogram_step h iv) x = hcount h x + (if x = round_tenth iv then 1 else 0)"
  by (simp add: histogram_step_alt hcount_def map_of_map_set)

lemma hcount_fold:
  "hcount (foldl histogram_step h ivs) x = hcount h x + count_list (map round_tenth ivs) x"
  by (induction ivs arbitrary: h) (auto simp: hcount_step)

lemma keys_fold:
  "fst ` set (foldl histogram_step h ivs) = fst ` set h \<union> round_tenth ` set ivs"
proof (induction ivs arbitrary: h)
  case Nil
  then show ?case by simp
next
  case (Cons iv ivs)
  have "fst ` set (histogram_step h iv) = insert (round_tenth iv) (fst ` set h)"
    by (simp add: histogram_step_alt keys_map_set)
  then show ?case using Cons [of "histogram_step h iv"] by auto
qed

lemma distinct_fold:
  "distinct (map fst h) \<Longrightarrow> distinct (map fst (foldl histogram_step h ivs))"
  by (induction ivs arbitrary: h) (auto simp: histogram_step_alt distinct_map_set)

lemma histogram_entry:
  assumes "(k, c) \<in> set (histogram ivs)"
  shows "k \<in> set (map round_tenth ivs) \<and> c = count_list (map round_tenth ivs) k"
proof -
  have d: "distinct (map fst (histogram ivs))"
    unfolding histogram_def by (rule distinct_fold) simp
  have "k \<in> fst ` set (histogram ivs)"
    using assms by force
  then have k: "k \<in> set (map round_tenth ivs)"
    by (simp add: histogram_def keys_fold)
  have "map_of (histogram ivs) k = Some c"
    using assms d by simp
  then have "hcount (histogram ivs) k = c"
    by (simp add: hcount_def)
  then have "c = count_list (map round_tenth ivs) k"
    using hcount_fold [of "[]" ivs k] by (simp add: histogram_def hcount_def)
  with k show ?thesis by simp
qed

lemma histogram_has:
  assumes "x \<in> set (map round_tenth ivs)"
  shows "(x, count_list (map round_tenth ivs) x) \<in> set (histogram ivs)"
proof -
  have "x \<in> fst ` set (histogram ivs)"
    using assms by (simp add: histogram_def keys_fold)
  then obtain c where c: "(x, c) \<in> set (histogram ivs)" by auto
  then show ?thesis using histogram_entry by blast
qed

lemma most_common_fold:
  "fst acc \<le> fst (foldl most_common_step acc h) \<and>
   (\<forall>e \<in> set h. snd e \<le> fst (foldl most_common_step acc h)) \<and>
   (foldl most_common_step acc h = acc \<or>
    (snd (foldl most_common_step acc h), fst (foldl most_common_step acc h)) \<in> set h)"
proof (induction h arbitrary: acc)
  case Nil
  then show ?case by simp
next
  case (Cons e h)
  let ?acc' = "most_common_step acc e"
  have a: "fst acc \<le> fst ?acc'" "snd e \<le> fst ?acc'"
    by (simp_all add: most_common_step_def)
  have b: "?acc' = acc \<or> ?acc' = (snd e, fst e)"
    by (simp add: most_common_step_def)
  from Cons [of ?acc'] a b show ?case
    by (auto simp: prod_eq_iff)
qed

lemma commonInterval_is_mode:
  assumes "ivs \<noteq> []"
  shows "is_mode (commonInterval (histogram ivs)) (map round_tenth ivs)"
proof -
  let ?rs = "map round_tenth ivs"
  let ?h = "histogram ivs"
  let ?r = "foldl most_common_step (0, 0) ?h"
  obtain x where x: "x \<in> set ?rs" using assms by (cases ivs) auto
  then have xin: "(x, count_list ?rs x) \<in> set ?h" by (rule histogram_has)
  have "count_list ?rs x > 0" using x by (metis count_list_0_iff gr0I)
  moreover have "count_list ?rs x \<le> fst ?r"
    using most_common_fold [of "(0, 0)" ?h] xin by fastforce
  ultimately have "?r \<noteq> (0, 0)" by auto
  then have rin: "(snd ?r, fst ?r) \<in> set ?h"
    using most_common_fold [of "(0, 0)" ?h] by blast
  then have m: "snd ?r \<in> set ?rs" "fst ?r = count_list ?rs (snd ?r)"
    using histogram_entry by blast+
  have "\<forall>y \<in> set ?rs. count_list ?rs y \<le> count_list ?rs (snd ?r)"
  proof
    fix y assume "y \<in> set ?rs"
    then have "(y, count_list ?rs y) \<in> set ?h" by (rule histogram_has)
    then have "count_list ?rs y \<le> fst ?r"
      using most_common_fold [of "(0, 0)" ?h] by fastforce
    then show "count_list ?rs y \<le> count_list ?rs (snd ?r)" using m by simp
  qed
  then show ?thesis using m by (simp add: is_mode_def commonInterval_def)
qed

lemma intervals_nonempty: "2 \<le> length bs \<Longrightarrow> intervals bs \<noteq> []"
  by (auto simp: intervals_def)

lemma calculateTempo_mode:
  assumes "2 \<le> length bs"
  shows "is_mode (commonInterval (histogram (intervals bs))) (rounded_intervals_spec bs)"
  using commonInterval_is_mode [OF intervals_nonempty [OF assms]] by (simp add: intervals_spec)

lemma steady_intervals:
  assumes "\<forall>i. Suc i < length bs \<longrightarrow> time (bs ! Suc i) - time (bs ! i) = 1 / 2"
  shows "set (rounded_intervals_spec bs) \<subseteq> {1 / 2}"
proof -
  have r: "round_tenth (1 / 2) = 1 / 2"
    by (simp add: round_tenth_def Math_round_def)
  have "\<forall>iv \<in> set (intervals bs). round_tenth iv = 1 / 2"
  proof
    fix iv assume "iv \<in> set (intervals bs)"
    then obtain i where "1 \<le> i" "i < length bs" "iv = time (bs ! i) - time (bs ! (i - 1))"
      by (auto simp: intervals_def)
    then have "iv = 1 / 2" using assms [rule_format, of "i - 1"] by simp
    then show "round_tenth iv = 1 / 2" using r by (simp only:)
  qed
  then have "set (map round_tenth (intervals bs)) \<subseteq> {1 / 2}"
    unfolding set_map by blast
  then show ?thesis by (simp only: intervals_spec)
qed

lemma calculateTempo_steady:
  assumes "2 \<le> length bs"
    and "\<forall>i. Suc i < length bs \<longrightarrow> time (bs ! Suc i) - time (bs ! i) = 1 / 2"
  shows "calculateTempo bs = 120"
proof -
  have "commonInterval (histogram (intervals bs)) \<in> set (rounded_intervals_spec bs)"
    using calculateTempo_mode [OF assms(1)] by (simp add: is_mode_def)
  then have c: "commonInterval (histogram (intervals bs)) = 1 / 2"
    using steady_intervals [OF assms(2)] by blast
  have "calculateTempo bs =
          (let c = commonInterval (histogram (intervals bs)) in if c > 0 then 60 / c else 0)"
    using assms(1) by (simp add: calculateTempo_def)
  also have "\<dots> = (let c = (1 / 2 :: real) in if c > 0 then 60 / c else 0)"
    by (simp only: c)
  also have "\<dots> = 120"
    by simp
  finally show ?thesis .
qed


text \<open>
  Claim C7. \<^verbatim>\<open>_calculateTempo\<close> returns 0 for fewer than two beats. Otherwise the value
  its histogram loop selects is a mode of the inter-beat intervals rounded to 0.1 s, and
  the result is 60 divided by it when it is positive (0 otherwise: a non-positive interval
  has no tempo). For at least 8 beats exactly 0.5 s apart the result is within 1 of 120.
\<close>

theorem calculateTempo_spec:
  "(length bs < 2 \<longrightarrow> calculateTempo bs = 0) \<and>
   (2 \<le> length bs \<longrightarrow>
      is_mode (commonInterval (histogram (intervals bs))) (rounded_intervals_spec bs) \<and>
      (0 < commonInterval (histogram (intervals bs)) \<longrightarrow>
         calculateTempo bs = 60 / commonInterval (histogram (intervals bs))) \<and>
      (commonInterval (histogram (intervals bs)) \<le> 0 \<longrightarrow> calculateTempo bs = 0)) \<and>
   (8 \<le> length bs \<and> (\<forall>i. Suc i < length bs \<longrightarrow> time (bs ! Suc i) - time (bs ! i) = 1 / 2) \<longrightarrow>
      \<bar>calculateTempo bs - 120\<bar> \<le> 1)"
proof (intro conjI impI)
  show "length bs < 2 \<Longrightarrow> calculateTempo bs = 0"
    by (simp add: calculateTempo_def)
  show "2 \<le> length bs \<Longrightarrow>
      is_mode (commonInterval (histogram (intervals bs))) (rounded_intervals_spec bs)"
    by (rule calculateTempo_mode)
  show "2 \<le> length bs \<Longrightarrow> 0 < commonInterval (histogram (intervals bs)) \<Longrightarrow>
      calculateTempo bs = 60 / commonInterval (histogram (intervals bs))"
    by (simp add: calculateTempo_def)
  show "2 \<le> length bs \<Longrightarrow> commonInterval (histogram (intervals bs)) \<le> 0 \<Longrightarrow>
      calculateTempo bs = 0"
    by (simp add: calculateTempo_def)
  show "8 \<le> length bs \<and> (\<forall>i. Suc i < length bs \<longrightarrow> time (bs ! Suc i) - time (bs ! i) = 1 / 2) \<Longrightarrow>
      \<bar>calculateTempo bs - 120\<bar> \<le> 1"
    using calculateTempo_steady [of bs] by simp
qed

lemma steady_beats_spacing:
  "Suc i < length (steady_beats t0 d n) \<Longrightarrow>
     time (steady_beats t0 d n ! Suc i) - time (steady_beats t0 d n ! i) = d"
  by (simp add: steady_beats_def algebra_simps)

theorem calculateTempo_spec_witness:
  "length (steady_beats 3 (1 / 2) 8) = 8 \<and>
   \<bar>calculateTempo (steady_beats 3 (1 / 2) 8) - 120\<bar> \<le> 1 \<and>
   is_mode (commonInterval (histogram (intervals (steady_beats 3 (1 / 2) 8))))
     (rounded_intervals_spec (steady_beats 3 (1 / 2) 8)) \<and>
   calculateTempo (steady_beats 3 (1 / 2) 1) = 0"
proof -
  have l: "length (steady_beats 3 (1 / 2) 8) = 8" "length (steady_beats 3 (1 / 2) 1) < 2"
    by (simp_all add: steady_beats_def)
  have s: "\<forall>i. Suc i < length (steady_beats 3 (1 / 2) 8) \<longrightarrow>
     time (steady_beats 3 (1 / 2) 8 ! Suc i) - time (steady_beats 3 (1 / 2) 8 ! i) = 1 / 2"
    using steady_beats_spacing by blast
  show ?thesis
    using calculateTempo_spec [of "steady_beats 3 (1 / 2) 8"]
      calculateTempo_spec [of "steady_beats 3 (1 / 2) 1"] l s
    by simp
qed

section \<open>Properties of beat detection\<close>

lemma detectBeatsAdvanced_loop_filter:
  "detectBeatsAdvanced_loop env fl th i bs =
     (if \<forall>j \<in> set (filter (is_flux_peak fl th) [i..<length fl - 1]). j < length env
      then Inr (bs @ map (beat_at env fl) (filter (is_flux_peak fl th) [i..<length fl - 1]))
      else Inl TypeError)"
proof (induction env fl th i bs rule: detectBeatsAdvanced_loop.induct)
  case (1 env fl th i bs)
  show ?case
  proof (cases "i + 1 < length fl")
    case False
    then show ?thesis by (simp add: detectBeatsAdvanced_loop.simps [of env fl th i bs])
  next
    case True
    then have u: "[i..<length fl - 1] = i # [i + 1..<length fl - 1]"
      by (simp add: upt_conv_Cons)
    show ?thesis
    proof (cases "is_flux_peak fl th i")
      case False
      then show ?thesis
        using True 1(2) u by (simp add: detectBeatsAdvanced_loop.simps [of env fl th i bs])
    next
      case peak: True
      show ?thesis
      proof (cases "i < length env")
        case False
        then show ?thesis
          using True peak u by (auto simp: detectBeatsAdvanced_loop.simps [of env fl th i bs])
      next
        case inr: True
        then show ?thesis
          using True peak 1(1) u
          by (simp add: detectBeatsAdvanced_loop.simps [of env fl th i bs] beat_at_def)
      qed
    qed
  qed
qed

lemma detectBeatsAdvanced_times:
  assumes "detectBeatsAdvanced env fl = Inr bs"
  shows "map time bs =
           map (\<lambda>j. frame_time (env ! j))
             (filter (is_flux_peak fl (calculateAdaptiveThreshold fl)) [1..<length fl - 1]) \<and>
         (\<forall>j \<in> set (filter (is_flux_peak fl (calculateAdaptiveThreshold fl)) [1..<length fl - 1]).
            j < length env)"
  using assms
  by (auto simp: detectBeatsAdvanced_def detectBeatsAdvanced_loop_filter beat_at_def comp_def
      split: if_splits)

lemma detectBeatsAdvanced_increasing:
  assumes "detectBeatsAdvanced env fl = Inr bs"
    and "sorted_wrt (<) (map frame_time env)"
  shows "sorted_wrt (<) (map time bs)"
proof -
  let ?js = "filter (is_flux_peak fl (calculateAdaptiveThreshold fl)) [1..<length fl - 1]"
  have t: "map time bs = map (\<lambda>j. frame_time (env ! j)) ?js" and r: "\<forall>j \<in> set ?js. j < length env"
    using detectBeatsAdvanced_times [OF assms(1)] by blast+
  have "sorted_wrt (<) ?js"
    by (simp add: sorted_wrt_filter)
  then have "sorted_wrt (\<lambda>j k. frame_time (env ! j) < frame_time (env ! k)) ?js"
  proof (rule sorted_wrt_mono_rel [rotated])
    fix j k assume "j \<in> set ?js" "k \<in> set ?js" "j < k"
    then have "j < k" "k < length (map frame_time env)" using r by simp_all
    from sorted_wrt_nth_less [OF assms(2) this]
    show "frame_time (env ! j) < frame_time (env ! k)"
      using \<open>j < k\<close> \<open>k < length (map frame_time env)\<close> by simp
  qed
  then show ?thesis
    by (simp add: t sorted_wrt_map)
qed

lemma detectBeats_loop_spaced:
  assumes "successively (\<lambda>a b. b - a \<ge> minBeatInterval) bs"
    and "bs \<noteq> [] \<longrightarrow> last bs = lastBeatTime"
  shows "successively (\<lambda>a b. b - a \<ge> minBeatInterval) (detectBeats_loop env i lastBeatTime bs)"
  using assms
proof (induction env i lastBeatTime bs rule: detectBeats_loop.induct)
  case (1 env i lastBeatTime bs)
  show ?case
  proof (cases "i + 2 < length env")
    case False
    then show ?thesis using 1(3) by (simp add: detectBeats_loop.simps [of env i lastBeatTime bs])
  next
    case True
    let ?c = "env ! i"
    let ?cond = "rms ?c > rms (env ! (i - 1)) \<and> rms ?c > rms (env ! (i + 1)) \<and>
           rms_time ?c - lastBeatTime \<ge> minBeatInterval \<and>
           rms ?c > (rms (env ! (i - 1)) + rms (env ! (i + 1))) / 2 * 1.2"
    show ?thesis
    proof (cases ?cond)
      case False
      then have "detectBeats_loop env i lastBeatTime bs = detectBeats_loop env (i + 1) lastBeatTime bs"
        using True by (auto simp: detectBeats_loop.simps [of env i lastBeatTime bs] Let_def)
      moreover have "successively (\<lambda>a b. b - a \<ge> minBeatInterval) (detectBeats_loop env (i + 1) lastBeatTime bs)"
        using 1(2) [OF True refl refl refl _ 1(3) 1(4)] False by blast
      ultimately show ?thesis by simp
    next
      case c: True
      then have e: "detectBeats_loop env i lastBeatTime bs =
          detectBeats_loop env (i + 1) (rms_time ?c) (bs @ [rms_time ?c])"
        using True by (simp add: detectBeats_loop.simps [of env i lastBeatTime bs] Let_def)
      have s: "successively (\<lambda>a b. b - a \<ge> minBeatInterval) (bs @ [rms_time ?c])"
        using 1(3) 1(4) c by (auto simp: successively_append_iff)
      have "successively (\<lambda>a b. b - a \<ge> minBeatInterval)
              (detectBeats_loop env (i + 1) (rms_time ?c) (bs @ [rms_time ?c]))"
        using 1(1) [OF True refl refl refl c s] by simp
      then show ?thesis using e by simp
    qed
  qed
qed

lemma detectBeats_spaced:
  "successively (\<lambda>a b. b - a \<ge> minBeatInterval) (detectBeats env fps)"
  unfolding detectBeats_def by (rule detectBeats_loop_spaced) simp_all

lemma spaced_increasing:
  assumes "successively (\<lambda>a b. b - a \<ge> minBeatInterval) (bs :: real list)"
  shows "sorted_wrt (<) bs"
proof -
  have "successively (<) bs"
    using assms by (rule successively_mono) (auto simp: minBeatInterval_def)
  then show ?thesis
    by (simp add: successively_conv_sorted_wrt)
qed

section \<open>Properties of the crossfade curves\<close>

lemma quarter_wave_monotone:
  fixes x y :: real
  assumes "0 \<le> x" "x \<le> y" "y \<le> 1"
  shows "cos (y * pi / 2) \<le> cos (x * pi / 2) \<and> sin (x * pi / 2) \<le> sin (y * pi / 2)"
proof
  have a: "0 \<le> x * pi / 2" using assms by simp
  have b: "x * pi / 2 \<le> y * pi / 2" using assms by simp
  have c: "y * pi / 2 \<le> pi / 2" using assms by simp
  show "cos (y * pi / 2) \<le> cos (x * pi / 2)"
    using a b c pi_ge_zero by (intro cos_monotone_0_pi_le) linarith+
  show "sin (x * pi / 2) \<le> sin (y * pi / 2)"
    using a b c pi_ge_zero by (intro sin_monotone_2pi_le) linarith+
qed

lemma currentValue_antimono:
  assumes "0 \<le> s" "s \<le> t" "t \<le> 1"
  shows "currentValue t \<le> currentValue s"
proof -
  have "cos (t * pi / 2) \<le> cos (s * pi / 2)"
  proof (rule cos_monotone_0_pi_le)
    show "0 \<le> s * pi / 2" using assms by simp
    show "s * pi / 2 \<le> t * pi / 2" using assms by simp
    have "t * pi / 2 \<le> 1 * pi / 2" using assms by (simp add: mult_right_mono)
    then show "t * pi / 2 \<le> pi" using pi_ge_zero by linarith
  qed
  then show ?thesis by (simp add: currentValue_def max.coboundedI2)
qed

lemma nextValue_mono:
  assumes "0 \<le> s" "s \<le> t" "t \<le> 1"
  shows "nextValue s \<le> nextValue t"
proof -
  have "sin (s * pi / 2) \<le> sin (t * pi / 2)"
  proof (rule sin_monotone_2pi_le)
    have "0 \<le> s * pi / 2" using assms by simp
    then show "- (pi / 2) \<le> s * pi / 2" using pi_ge_zero by linarith
    show "s * pi / 2 \<le> t * pi / 2" using assms by simp
    have "t * pi / 2 \<le> 1 * pi / 2" using assms by (simp add: mult_right_mono)
    then show "t * pi / 2 \<le> pi / 2" by simp
  qed
  then show ?thesis by (simp add: nextValue_def max.coboundedI2)
qed

lemma curve_ends:
  "currentValue 0 = 1" "nextValue 0 = 0.001" "currentValue 1 = 0.001" "nextValue 1 = 1"
  by (simp_all add: currentValue_def nextValue_def)

lemma schedule_nth:
  assumes "i \<le> 60"
  shows "executeCrossfade_schedule now dur ! i =
           \<lparr>at_time = now + real i * (dur / 60), current_gain = currentValue (real i / 60),
            next_gain = nextValue (real i / 60)\<rparr>"
proof -
  have "i < length [0..<61]" using assms by simp
  then have "executeCrossfade_schedule now dur ! i =
      (if i = 0 then \<lparr>at_time = now + real i * (dur / 60), current_gain = 1, next_gain = 0.001\<rparr>
       else \<lparr>at_time = now + real i * (dur / 60), current_gain = currentValue (real i / 60),
            next_gain = nextValue (real i / 60)\<rparr>)"
    unfolding executeCrossfade_schedule_def by (simp add: Let_def del: upt_Suc)
  then show ?thesis using curve_ends by (cases "i = 0") simp_all
qed

lemma volume_nth:
  assumes "0 < dur" and "k < nat \<lceil>dur * 60\<rceil>"
  shows "volumeCrossfade dur ! k =
           (Num (cos (real (Suc k) / real_of_int \<lceil>dur * 60\<rceil> * pi / 2)),
            Num (sin (real (Suc k) / real_of_int \<lceil>dur * 60\<rceil> * pi / 2)))"
proof -
  have p: "0 < \<lceil>dur * 60\<rceil>" using assms(1) by simp
  then have m: "nat (max 1 \<lceil>dur * 60\<rceil>) = nat \<lceil>dur * 60\<rceil>" by simp
  have "k < length [1..<Suc (nat \<lceil>dur * 60\<rceil>)]" using assms(2) by simp
  then show ?thesis
    using p unfolding volumeCrossfade_def Let_def m by (simp del: upt_Suc)
qed

lemma volume_length:
  assumes "0 < dur"
  shows "length (volumeCrossfade dur) = nat \<lceil>dur * 60\<rceil>"
proof -
  have p: "0 < \<lceil>dur * 60\<rceil>" using assms(1) by simp
  then have m: "nat (max 1 \<lceil>dur * 60\<rceil>) = nat \<lceil>dur * 60\<rceil>" by simp
  show ?thesis unfolding volumeCrossfade_def Let_def m by (simp del: upt_Suc)
qed

lemma volume_last:
  assumes p: "0 < vdur"
  shows "last (volumeCrossfade vdur) = (Num 0, Num 1)"
proof -
  have l: "length (volumeCrossfade vdur) = nat \<lceil>vdur * 60\<rceil>"
    using p by (rule volume_length)
  have n: "0 < nat \<lceil>vdur * 60\<rceil>" using p by simp
  then have "volumeCrossfade vdur \<noteq> []" using l by auto
  then have "last (volumeCrossfade vdur) = volumeCrossfade vdur ! (nat \<lceil>vdur * 60\<rceil> - 1)"
    using l by (simp add: last_conv_nth)
  also have "\<dots> = (Num (cos (real (Suc (nat \<lceil>vdur * 60\<rceil> - 1)) / real_of_int \<lceil>vdur * 60\<rceil> * pi / 2)),
            Num (sin (real (Suc (nat \<lceil>vdur * 60\<rceil> - 1)) / real_of_int \<lceil>vdur * 60\<rceil> * pi / 2)))"
    using n by (intro volume_nth [OF p]) simp
  finally have f: "last (volumeCrossfade vdur) =
      (Num (cos (real (Suc (nat \<lceil>vdur * 60\<rceil> - 1)) / real_of_int \<lceil>vdur * 60\<rceil> * pi / 2)),
       Num (sin (real (Suc (nat \<lceil>vdur * 60\<rceil> - 1)) / real_of_int \<lceil>vdur * 60\<rceil> * pi / 2)))" .
  have e: "real (Suc (nat \<lceil>vdur * 60\<rceil> - 1)) / real_of_int \<lceil>vdur * 60\<rceil> = 1"
  proof -
    define c where "c = \<lceil>vdur * 60\<rceil>"
    have c: "0 < c" using p by (simp add: c_def)
    then have "real (Suc (nat c - 1)) = real_of_int c" by simp
    then have "real (Suc (nat c - 1)) / real_of_int c = 1" using c by simp
    then show ?thesis by (simp only: c_def)
  qed
  show ?thesis
    unfolding f e by simp
qed

lemma volume_steps_monotone:
  assumes "0 < dur" and "j \<le> k" and "k < nat \<lceil>dur * 60\<rceil>"
  shows "\<not> js_gt (fst (volumeCrossfade dur ! k)) (fst (volumeCrossfade dur ! j)) \<and>
         \<not> js_lt (snd (volumeCrossfade dur ! k)) (snd (volumeCrossfade dur ! j))"
proof -
  let ?n = "real_of_int \<lceil>dur * 60\<rceil>"
  have c: "0 < ?n" using assms(1) by simp
  have k: "real (Suc k) \<le> ?n" using assms(3) by linarith
  have r: "0 \<le> real (Suc j) / ?n" "real (Suc j) / ?n \<le> real (Suc k) / ?n" "real (Suc k) / ?n \<le> 1"
    using c k assms(2) by (simp_all add: divide_right_mono)
  have "cos (real (Suc k) / ?n * pi / 2) \<le> cos (real (Suc j) / ?n * pi / 2) \<and>
        sin (real (Suc j) / ?n * pi / 2) \<le> sin (real (Suc k) / ?n * pi / 2)"
    by (rule quarter_wave_monotone [OF r])
  moreover have "j < nat \<lceil>dur * 60\<rceil>" using assms(2,3) by simp
  ultimately show ?thesis
    using assms by (simp add: volume_nth js_gt_def)
qed

text \<open>
  Claim C8, as amended. In \<^verbatim>\<open>_executeCrossfade\<close> the 61 scheduled points, at normalized
  times \<open>t = i / 60\<close>, give the outgoing gain \<open>max 0.001 (cos (t\<pi>/2))\<close> and the incoming gain
  \<open>max 0.001 (sin (t\<pi>/2))\<close>: \<open>(1, 0.001)\<close> at the start, \<open>(0.001, 1)\<close> at the end, the
  outgoing values non-increasing and the incoming values non-decreasing, as the two
  curves are on all of \<open>[0, 1]\<close>. The fallback \<^verbatim>\<open>_volumeCrossfade\<close> applies the same
  cosine and sine without the floor, at \<open>t = step / totalSteps\<close> for
  \<open>step = 1, \<dots>, totalSteps\<close>: its last pair is \<open>(0, 1)\<close>, and its values are monotone too.
\<close>

theorem crossfade_curves:
  "(\<forall>i \<le> 60.
      executeCrossfade_schedule now dur ! i =
        \<lparr>at_time = now + real i * (dur / 60),
         current_gain = max 0.001 (cos (real i / 60 * pi / 2)),
         next_gain = max 0.001 (sin (real i / 60 * pi / 2))\<rparr>) \<and>
   length (executeCrossfade_schedule now dur) = 61 \<and>
   current_gain (executeCrossfade_schedule now dur ! 0) = 1 \<and>
   next_gain (executeCrossfade_schedule now dur ! 0) = 0.001 \<and>
   current_gain (executeCrossfade_schedule now dur ! 60) = 0.001 \<and>
   next_gain (executeCrossfade_schedule now dur ! 60) = 1 \<and>
   (\<forall>i j. i \<le> j \<and> j \<le> 60 \<longrightarrow>
      current_gain (executeCrossfade_schedule now dur ! j)
        \<le> current_gain (executeCrossfade_schedule now dur ! i) \<and>
      next_gain (executeCrossfade_schedule now dur ! i)
        \<le> next_gain (executeCrossfade_schedule now dur ! j)) \<and>
   (\<forall>s t. 0 \<le> s \<and> s \<le> t \<and> t \<le> 1 \<longrightarrow>
      currentValue t \<le> currentValue s \<and> nextValue s \<le> nextValue t) \<and>
   (0 < vdur \<longrightarrow>
      length (volumeCrossfade vdur) = nat \<lceil>vdur * 60\<rceil> \<and>
      (\<forall>k < nat \<lceil>vdur * 60\<rceil>.
         volumeCrossfade vdur ! k =
           (Num (cos (real (Suc k) / real_of_int \<lceil>vdur * 60\<rceil> * pi / 2)),
            Num (sin (real (Suc k) / real_of_int \<lceil>vdur * 60\<rceil> * pi / 2)))) \<and>
      last (volumeCrossfade vdur) = (Num 0, Num 1) \<and>
      (\<forall>j k. j \<le> k \<and> k < nat \<lceil>vdur * 60\<rceil> \<longrightarrow>
         \<not> js_gt (fst (volumeCrossfade vdur ! k)) (fst (volumeCrossfade vdur ! j)) \<and>
         \<not> js_lt (snd (volumeCrossfade vdur ! k)) (snd (volumeCrossfade vdur ! j))))"
proof (intro conjI allI impI)
  fix i :: nat assume "i \<le> 60"
  then show "executeCrossfade_schedule now dur ! i =
        \<lparr>at_time = now + real i * (dur / 60),
         current_gain = max 0.001 (cos (real i / 60 * pi / 2)),
         next_gain = max 0.001 (sin (real i / 60 * pi / 2))\<rparr>"
    by (simp add: schedule_nth currentValue_def nextValue_def)
next
  show "length (executeCrossfade_schedule now dur) = 61"
    by (simp add: executeCrossfade_schedule_def del: upt_Suc)
next
  show "current_gain (executeCrossfade_schedule now dur ! 0) = 1"
    "next_gain (executeCrossfade_schedule now dur ! 0) = 0.001"
    "current_gain (executeCrossfade_schedule now dur ! 60) = 0.001"
    "next_gain (executeCrossfade_schedule now dur ! 60) = 1"
    using curve_ends by (simp_all add: schedule_nth)
next
  fix i j :: nat assume a: "i \<le> j \<and> j \<le> 60"
  then have r: "0 \<le> real i / 60" "real i / 60 \<le> real j / 60" "real j / 60 \<le> 1"
    by simp_all
  show "current_gain (executeCrossfade_schedule now dur ! j)
        \<le> current_gain (executeCrossfade_schedule now dur ! i)"
    using a currentValue_antimono [OF r] by (simp add: schedule_nth)
  show "next_gain (executeCrossfade_schedule now dur ! i)
        \<le> next_gain (executeCrossfade_schedule now dur ! j)"
    using a nextValue_mono [OF r] by (simp add: schedule_nth)
next
  fix s t :: real assume "0 \<le> s \<and> s \<le> t \<and> t \<le> 1"
  then show "currentValue t \<le> currentValue s" "nextValue s \<le> nextValue t"
    using currentValue_antimono nextValue_mono by blast+
next
  assume p: "0 < vdur"
  show "length (volumeCrossfade vdur) = nat \<lceil>vdur * 60\<rceil>"
    using p by (rule volume_length)
  show "last (volumeCrossfade vdur) = (Num 0, Num 1)"
    using p by (rule volume_last)
next
  fix j k assume p: "0 < vdur" and jk: "j \<le> k \<and> k < nat \<lceil>vdur * 60\<rceil>"
  from volume_steps_monotone [OF p, of j k] jk
  show "\<not> js_gt (fst (volumeCrossfade vdur ! k)) (fst (volumeCrossfade vdur ! j))"
    and "\<not> js_lt (snd (volumeCrossfade vdur ! k)) (snd (volumeCrossfade vdur ! j))"
    by simp_all
next
  fix k assume "0 < vdur" "k < nat \<lceil>vdur * 60\<rceil>"
  then show "volumeCrossfade vdur ! k =
           (Num (cos (real (Suc k) / real_of_int \<lceil>vdur * 60\<rceil> * pi / 2)),
            Num (sin (real (Suc k) / real_of_int \<lceil>vdur * 60\<rceil> * pi / 2)))"
    by (rule volume_nth)
qed

theorem crossfade_curves_witness:
  "current_gain (executeCrossfade_schedule 0 16 ! 0) = 1 \<and>
   next_gain (executeCrossfade_schedule 0 16 ! 0) = 0.001 \<and>
   current_gain (executeCrossfade_schedule 0 16 ! 60) = 0.001 \<and>
   next_gain (executeCrossfade_schedule 0 16 ! 60) = 1 \<and>
   current_gain (executeCrossfade_schedule 0 16 ! 45)
     \<le> current_gain (executeCrossfade_schedule 0 16 ! 15) \<and>
   next_gain (executeCrossfade_schedule 0 16 ! 15)
     \<le> next_gain (executeCrossfade_schedule 0 16 ! 45) \<and>
   currentValue 1 \<le> currentValue (1 / 2) \<and>
   length (volumeCrossfade 1) = 60 \<and>
   last (volumeCrossfade 1) = (Num 0, Num 1)"
proof -
  have "(15::nat) \<le> 45 \<and> (45::nat) \<le> 60" "(0::real) \<le> 1 / 2 \<and> (1 / 2 :: real) \<le> 1 \<and> (1::real) \<le> 1"
    "(0::real) < 1" "nat \<lceil>(1::real) * 60\<rceil> = 60"
    by simp_all
  with crossfade_curves [of 0 16 1] show ?thesis
    by metis
qed

text \<open>
  The claim as stated fails for \<^verbatim>\<open>_volumeCrossfade\<close>: a one-second fallback crossfade ends
  with the outgoing volume 0, not the floor 0.001 that \<open>max 0.001 (cos (t\<pi>/2))\<close> has at
  \<open>t = 1\<close>.
\<close>

theorem volume_fallback_has_no_floor:
  "executeCrossfade False 0 1 = Volumes (volumeCrossfade 1) \<and>
   fst (last (volumeCrossfade 1)) = Num 0 \<and> currentValue 1 = 0.001 \<and>
   Num 0 \<noteq> Num (currentValue 1)"
proof -
  have "last (volumeCrossfade 1) = (Num 0, Num 1)"
    by (rule volume_last) simp
  then show ?thesis
    by (simp add: curve_ends executeCrossfade_def)
qed

section \<open>Properties of AudioAnalyzer.analyze\<close>

lemma fft_pair: "fft [Num 1, Num (- 2)] = [Num 3]"
  by (simp add: fft.simps [of "[Num 1, Num (- 2)]"] fft.simps [of "[Num 1]"] fft.simps [of "[Num (- 2)]"] read_num_def)

lemma fft_four: "fft [Num 0, Num 0, Num 0, Num 0] = [Num 0, NaN]"
  by (simp add: fft.simps [of "[Num 0, Num 0, Num 0, Num 0]"] fft.simps [of "[Num 0, Num 0]"]  fft.simps [of "[Num 0]"] read_num_def upt_rec)

lemma js_sub_self_not_positive: "\<not> js_gt (js_sub x x) (Num 0)"
  by (cases x) (simp_all add: js_sub_def js_gt_def)

lemma spectral_flux_same: "spectral_flux S (Some S) = Num 0"
proof -
  have "foldl (\<lambda>flux' j.
                   let diff = js_sub (read_num S j) (read_num S j)
                   in js_add flux' (if js_gt diff (Num 0) then diff else Num 0))
            (Num 0) js = Num 0" for js
    by (induction js) (simp_all add: js_sub_self_not_positive Let_def)
  then show ?thesis by (simp add: spectral_flux_def)
qed

lemma silent_window:
  assumes "\<forall>x \<in> set data. x = (0::real)" and "i + w < length data"
  shows "map Num (slice data i (i + w)) = replicate w (Num 0)"
proof -
  let ?win = "take w (drop i data)"
  have "\<forall>x \<in> set ?win. x = 0"
    using assms(1) by (meson in_set_dropD in_set_takeD)
  then have "replicate (length ?win) 0 = ?win"
    by (intro replicate_length_same) simp
  moreover have "length ?win = w" using assms(2) by simp
  ultimately have "?win = replicate w 0" by metis
  then show ?thesis by (simp add: slice_def)
qed

lemma analyze_loop_silent:
  assumes "0 < hop" and "\<forall>x \<in> set (channelData buf). x = 0"
    and "set fl0 \<subseteq> {Num 0}"
    and "prev = None \<or> prev = Some (fft (replicate w (Num 0)))"
  shows "\<exists>env fl. analyze_loop buf hop w i env0 fl0 prev = Some (env, fl) \<and> set fl \<subseteq> {Num 0}"
  using assms(3,4)
proof (induction "length (channelData buf) - i" arbitrary: i env0 fl0 prev rule: less_induct)
  case less
  show ?case
  proof (cases "i + w < length (channelData buf) \<and> real i < sampleRate buf * 30")
    case False
    then have "analyze_loop buf hop w i env0 fl0 prev = Some (env0, fl0)"
      by (subst analyze_loop.simps) auto
    then show ?thesis using less.prems by simp
  next
    case True
    let ?S = "fft (replicate w (Num 0))"
    have win: "map Num (slice (channelData buf) i (i + w)) = replicate w (Num 0)"
      using silent_window [OF assms(2)] True by simp
    have fl: "spectral_flux ?S prev = Num 0"
      using less.prems(2) by (auto simp: spectral_flux_same) (simp add: spectral_flux_def)
    have step: "analyze_loop buf hop w i env0 fl0 prev =
        analyze_loop buf hop w (i + hop)
          (env0 @ [\<lparr>frame_time = real i / sampleRate buf, frame_energy = calculateEnergy ?S,
                     flux = Num 0\<rparr>])
          (fl0 @ [Num 0]) (Some ?S)"
      using True by (subst analyze_loop.simps) (simp add: win fl Let_def)
    have "length (channelData buf) - (i + hop) < length (channelData buf) - i"
      using True assms(1) by linarith
    from less.hyps [OF this, of "fl0 @ [Num 0]" "Some ?S"] less.prems(1)
    show ?thesis unfolding step by simp
  qed
qed

lemma detectBeatsAdvanced_silent:
  assumes "set fl \<subseteq> {Num 0}"
  shows "detectBeatsAdvanced env fl = Inr []"
proof -
  have "\<not> is_flux_peak fl th j" if "j \<in> set [1..<length fl - 1]" for th j
  proof -
    from that have "j < length fl" "j - 1 < length fl" by auto
    then have "fl ! j = Num 0" "fl ! (j - 1) = Num 0"
      using assms nth_mem by blast+
    then show ?thesis
      using \<open>j < length fl\<close> \<open>j - 1 < length fl\<close>
      by (simp add: is_flux_peak_def read_num_def js_gt_def)
  qed
  then have "filter (is_flux_peak fl th) [1..<length fl - 1] = []" for th
    by (simp add: filter_empty_conv)
  then show ?thesis
    by (simp add: detectBeatsAdvanced_def detectBeatsAdvanced_loop_filter)
qed

lemma detectKey_loop_returns:
  assumes "0 < hop \<or> samples \<le> 0"
  shows "\<exists>c. detectKey_loop buf samples hop i chroma = Some c"
proof (induction "nat \<lceil>samples\<rceil> - i" arbitrary: i chroma rule: less_induct)
  case less
  show ?case
  proof (cases "real i < samples")
    case False
    then show ?thesis by (subst detectKey_loop.simps) simp
  next
    case True
    then have h: "0 < hop" using assms by auto
    from True have "int i < \<lceil>samples\<rceil>" by linarith
    then have "nat \<lceil>samples\<rceil> - (i + hop) < nat \<lceil>samples\<rceil> - i"
      using h by linarith
    from less [OF this] show ?thesis
      using True by (subst detectKey_loop.simps) (simp add: Let_def)
  qed
qed

lemma detectKey_returns:
  assumes "20 \<le> sampleRate buf \<or> channelData buf = []"
  shows "\<exists>k. detectKey buf = Some k"
proof -
  let ?samples = "min (real (length (channelData buf))) (sampleRate buf * 10)"
  let ?hop = "nat \<lfloor>sampleRate buf * 0.05\<rfloor>"
  have "0 < ?hop \<or> ?samples \<le> 0"
  proof (cases "channelData buf = []")
    case True
    then show ?thesis by simp
  next
    case False
    then have "20 \<le> sampleRate buf" using assms by simp
    then have "1 \<le> sampleRate buf * 0.05" by simp
    then have "1 \<le> \<lfloor>sampleRate buf * 0.05\<rfloor>" by linarith
    then show ?thesis by simp
  qed
  from detectKey_loop_returns [OF this, of buf 0 "replicate 12 (Num 0)"]
  show ?thesis by (auto simp: detectKey_def Let_def)
qed

lemma analyze_silent:
  assumes "channelData buf = [] \<or> (20 \<le> sampleRate buf \<and> (\<forall>x \<in> set (channelData buf). x = 0))"
  shows "\<exists>r. analyze buf = Some (Inr r) \<and> tempo r = 0 \<and> beats r = []"
proof -
  let ?hop = "nat \<lfloor>sampleRate buf * 0.05\<rfloor>"
  let ?w = "nat \<lfloor>sampleRate buf * 0.1\<rfloor>"
  have "\<exists>env fl. analyze_loop buf ?hop ?w 0 [] [] None = Some (env, fl) \<and> set fl \<subseteq> {Num 0}"
  proof (cases "channelData buf = []")
    case True
    then have "analyze_loop buf ?hop ?w 0 [] [] None = Some ([], [])"
      by (subst analyze_loop.simps) simp
    then show ?thesis by simp
  next
    case False
    then have sr: "20 \<le> sampleRate buf" and z: "\<forall>x \<in> set (channelData buf). x = 0"
      using assms by simp_all
    have "1 \<le> sampleRate buf * 0.05" using sr by simp
    then have "1 \<le> \<lfloor>sampleRate buf * 0.05\<rfloor>" by linarith
    then have "0 < ?hop" by simp
    from analyze_loop_silent [OF this z, of "[]" None ?w 0 "[]"]
    show ?thesis by simp
  qed
  then obtain env fl where l: "analyze_loop buf ?hop ?w 0 [] [] None = Some (env, fl)"
    and f: "set fl \<subseteq> {Num 0}" by blast
  have b: "detectBeatsAdvanced env fl = Inr []"
    using f by (rule detectBeatsAdvanced_silent)
  obtain k where k: "detectKey buf = Some k"
    using detectKey_returns [of buf] assms by auto
  show ?thesis
    unfolding analyze_def Let_def l by (simp add: b k calculateTempo_def)
qed

lemma analyze_loop_returns:
  assumes "0 < hop"
    and "length env0 = length fl0"
    and "sorted_wrt (<) (map frame_time env0)"
    and "\<forall>e \<in> set env0. frame_time e * sampleRate buf < real i"
  shows "\<exists>env fl. analyze_loop buf hop w i env0 fl0 prev = Some (env, fl) \<and>
           length env = length fl \<and> sorted_wrt (<) (map frame_time env)"
  using assms(2,3,4)
proof (induction "length (channelData buf) - i" arbitrary: i env0 fl0 prev rule: less_induct)
  case less
  show ?case
  proof (cases "i + w < length (channelData buf) \<and> real i < sampleRate buf * 30")
    case False
    then have "analyze_loop buf hop w i env0 fl0 prev = Some (env0, fl0)"
      by (subst analyze_loop.simps) auto
    then show ?thesis using less.prems by simp
  next
    case True
    then have sr: "0 < sampleRate buf"
      by (smt (verit) of_nat_0_le_iff zero_less_mult_pos2)
    let ?S = "fft (map Num (slice (channelData buf) i (i + w)))"
    let ?f = "\<lparr>frame_time = real i / sampleRate buf, frame_energy = calculateEnergy ?S,
                flux = spectral_flux ?S prev\<rparr>"
    have step: "analyze_loop buf hop w i env0 fl0 prev =
        analyze_loop buf hop w (i + hop) (env0 @ [?f]) (fl0 @ [spectral_flux ?S prev]) (Some ?S)"
      using True by (subst analyze_loop.simps) (simp add: Let_def)
    have m: "length (channelData buf) - (i + hop) < length (channelData buf) - i"
      using True assms(1) by linarith
    have l: "length (env0 @ [?f]) = length (fl0 @ [spectral_flux ?S prev])"
      using less.prems(1) by simp
    have before: "\<forall>e \<in> set env0. frame_time e < real i / sampleRate buf"
      using less.prems(3) sr by (simp add: pos_less_divide_eq)
    then have s: "sorted_wrt (<) (map frame_time (env0 @ [?f]))"
      using less.prems(2) by (simp add: sorted_wrt_append)
    have t: "\<forall>e \<in> set (env0 @ [?f]). frame_time e * sampleRate buf < real (i + hop)"
      using less.prems(3) sr assms(1) by auto
    from less.hyps [OF m l s t] show ?thesis
      unfolding step .
  qed
qed

lemma analyze_returns:
  assumes "20 \<le> sampleRate buf"
  shows "\<exists>r. analyze buf = Some (Inr r) \<and> sorted_wrt (<) (map time (beats r))"
proof -
  let ?hop = "nat \<lfloor>sampleRate buf * 0.05\<rfloor>"
  let ?w = "nat \<lfloor>sampleRate buf * 0.1\<rfloor>"
  have "1 \<le> sampleRate buf * 0.05" using assms by simp
  then have "1 \<le> \<lfloor>sampleRate buf * 0.05\<rfloor>" by linarith
  then have "0 < ?hop" by simp
  from analyze_loop_returns [OF this, of "[]" "[]" buf 0 ?w None]
  obtain env fl where l: "analyze_loop buf ?hop ?w 0 [] [] None = Some (env, fl)"
    and n: "length env = length fl" and s: "sorted_wrt (<) (map frame_time env)"
    by auto
  have "\<forall>j \<in> set (filter (is_flux_peak fl (calculateAdaptiveThreshold fl)) [1..<length fl - 1]).
          j < length env"
    using n by auto
  then obtain bs where b: "detectBeatsAdvanced env fl = Inr bs"
    by (simp add: detectBeatsAdvanced_def detectBeatsAdvanced_loop_filter)
  have i: "sorted_wrt (<) (map time bs)"
    using b s by (rule detectBeatsAdvanced_increasing)
  obtain k where k: "detectKey buf = Some k"
    using detectKey_returns [of buf] assms by auto
  show ?thesis
    unfolding analyze_def Let_def l by (simp add: b k i)
qed

section \<open>Beat monotonicity and graceful degradation\<close>

text \<open>
  Claim C4, as amended. Beat times are strictly increasing in both detectors: in
  \<^verbatim>\<open>_detectBeatsAdvanced\<close> whenever the frame times of the envelope are, hence in the
  beats of every analysis \<^verbatim>\<open>analyze\<close> returns (which it does for every buffer whose
  sample rate is at least 20 Hz); in \<^verbatim>\<open>detectBeats\<close> always. Consecutive beats are at
  least \<^verbatim>\<open>minBeatInterval\<close> = 0.3 s apart in \<^verbatim>\<open>detectBeats\<close>, the only detector that has
  a minimum interval.
\<close>

theorem beat_times_increasing_and_spaced:
  "(detectBeatsAdvanced env fl = Inr bs \<and> sorted_wrt (<) (map frame_time env) \<longrightarrow>
      (\<forall>i. Suc i < length bs \<longrightarrow> time (bs ! i) < time (bs ! Suc i))) \<and>
   (20 \<le> sampleRate buf \<longrightarrow>
      (\<exists>r. analyze buf = Some (Inr r) \<and>
         (\<forall>i. Suc i < length (beats r) \<longrightarrow> time (beats r ! i) < time (beats r ! Suc i)))) \<and>
   (\<forall>i. Suc i < length (detectBeats renv fps) \<longrightarrow>
      detectBeats renv fps ! i < detectBeats renv fps ! Suc i \<and>
      detectBeats renv fps ! Suc i - detectBeats renv fps ! i \<ge> minBeatInterval) \<and>
   minBeatInterval = 0.3"
proof (intro conjI impI allI)
  fix i
  assume a: "detectBeatsAdvanced env fl = Inr bs \<and> sorted_wrt (<) (map frame_time env)"
    and i: "Suc i < length bs"
  then have "sorted_wrt (<) (map time bs)"
    using detectBeatsAdvanced_increasing by blast
  from sorted_wrt_nth_less [OF this, of i "Suc i"] i
  show "time (bs ! i) < time (bs ! Suc i)" by simp
next
  assume "20 \<le> sampleRate buf"
  then obtain r where r: "analyze buf = Some (Inr r)" and s: "sorted_wrt (<) (map time (beats r))"
    using analyze_returns by blast
  have "\<forall>i. Suc i < length (beats r) \<longrightarrow> time (beats r ! i) < time (beats r ! Suc i)"
  proof (intro allI impI)
    fix i assume i: "Suc i < length (beats r)"
    from sorted_wrt_nth_less [OF s, of i "Suc i"] i
    show "time (beats r ! i) < time (beats r ! Suc i)" by simp
  qed
  with r show "\<exists>r. analyze buf = Some (Inr r) \<and>
         (\<forall>i. Suc i < length (beats r) \<longrightarrow> time (beats r ! i) < time (beats r ! Suc i))"
    by blast
next
  fix i
  assume i: "Suc i < length (detectBeats renv fps)"
  have s: "successively (\<lambda>a b. b - a \<ge> minBeatInterval) (detectBeats renv fps)"
    by (rule detectBeats_spaced)
  from successively_nth [OF s i]
  show g: "detectBeats renv fps ! Suc i - detectBeats renv fps ! i \<ge> minBeatInterval" .
  then show "detectBeats renv fps ! i < detectBeats renv fps ! Suc i"
    by (simp add: minBeatInterval_def)
next
  show "minBeatInterval = 0.3" by (simp add: minBeatInterval_def)
qed

lemma flux_fixture_beats:
  "detectBeatsAdvanced (frames_of_flux [0, 1, 0, 1, 0]) (map Num [0, 1, 0, 1, 0]) =
     Inr [\<lparr>time = 0.05, energy = Num 1, strength = Num 1\<rparr>,
          \<lparr>time = 0.15, energy = Num 1, strength = Num 1\<rparr>]"
  by code_simp

lemma rms_fixture_beats:
  "detectBeats (rms_frames [0, 0, 1, 0, 1, 0, 0]) 5 = [0.4, 0.8]"
  by code_simp

theorem beat_times_increasing_and_spaced_witness:
  "detectBeatsAdvanced (frames_of_flux [0, 1, 0, 1, 0]) (map Num [0, 1, 0, 1, 0]) =
     Inr [\<lparr>time = 0.05, energy = Num 1, strength = Num 1\<rparr>,
          \<lparr>time = 0.15, energy = Num 1, strength = Num 1\<rparr>] \<and>
   sorted_wrt (<) (map frame_time (frames_of_flux [0, 1, 0, 1, 0])) \<and>
   time \<lparr>time = 0.05, energy = Num 1, strength = Num 1\<rparr>
     < time \<lparr>time = 0.15, energy = Num 1, strength = Num 1\<rparr> \<and>
   length (detectBeats (rms_frames [0, 0, 1, 0, 1, 0, 0]) 5) = 2 \<and>
   detectBeats (rms_frames [0, 0, 1, 0, 1, 0, 0]) 5 ! 1 -
     detectBeats (rms_frames [0, 0, 1, 0, 1, 0, 0]) 5 ! 0 \<ge> minBeatInterval \<and>
   (\<exists>r. analyze \<lparr>sampleRate = 44100, channelData = replicate 88200 0, buffer_duration = 2\<rparr>
      = Some (Inr r))"
proof -
  have "(20::real) \<le> sampleRate \<lparr>sampleRate = 44100, channelData = replicate 88200 0, buffer_duration = 2\<rparr>"
    by simp
  with beat_times_increasing_and_spaced
    [where buf = "\<lparr>sampleRate = 44100, channelData = replicate 88200 0, buffer_duration = 2\<rparr>"]
  have an: "\<exists>r. analyze \<lparr>sampleRate = 44100, channelData = replicate 88200 0, buffer_duration = 2\<rparr>
      = Some (Inr r)"
    by blast
  let ?bs = "[\<lparr>time = 0.05, energy = Num 1, strength = Num 1\<rparr>,
          \<lparr>time = 0.15, energy = Num 1, strength = Num 1\<rparr>]"
  have s: "sorted_wrt (<) (map frame_time (frames_of_flux [0, 1, 0, 1, 0]))"
    by code_simp
  have l: "length (detectBeats (rms_frames [0, 0, 1, 0, 1, 0, 0]) 5) = 2"
    by (simp add: rms_fixture_beats)
  from beat_times_increasing_and_spaced
    [where env = "frames_of_flux [0, 1, 0, 1, 0]" and fl = "map Num [0, 1, 0, 1, 0]" and bs = ?bs
       and renv = "rms_frames [0, 0, 1, 0, 1, 0, 0]" and fps = 5]
  have "(\<forall>i. Suc i < length ?bs \<longrightarrow> time (?bs ! i) < time (?bs ! Suc i)) \<and>
    (\<forall>i. Suc i < length (detectBeats (rms_frames [0, 0, 1, 0, 1, 0, 0]) 5) \<longrightarrow>
      detectBeats (rms_frames [0, 0, 1, 0, 1, 0, 0]) 5 ! i
        < detectBeats (rms_frames [0, 0, 1, 0, 1, 0, 0]) 5 ! Suc i \<and>
      minBeatInterval \<le> detectBeats (rms_frames [0, 0, 1, 0, 1, 0, 0]) 5 ! Suc i -
        detectBeats (rms_frames [0, 0, 1, 0, 1, 0, 0]) 5 ! i)"
    using flux_fixture_beats s by blast
  then have "time (?bs ! 0) < time (?bs ! Suc 0)"
    and "minBeatInterval \<le> detectBeats (rms_frames [0, 0, 1, 0, 1, 0, 0]) 5 ! Suc 0 -
        detectBeats (rms_frames [0, 0, 1, 0, 1, 0, 0]) 5 ! 0"
    using l by simp_all
  then show ?thesis
    using flux_fixture_beats s l an by simp
qed

text \<open>
  The claim as stated fails for \<^verbatim>\<open>_detectBeatsAdvanced\<close>: flux peaks in frames 1 and 3 of
  an envelope with the analyzer's 0.05 s hop give two beats 0.1 s apart, less than
  \<^verbatim>\<open>minBeatInterval\<close>.
\<close>

theorem advanced_beats_closer_than_min_interval:
  "map time (projr (detectBeatsAdvanced (frames_of_flux [0, 1, 0, 1, 0]) (map Num [0, 1, 0, 1, 0])))
     = [0.05, 0.15] \<and>
   \<not> (0.15 - 0.05 \<ge> minBeatInterval)"
  unfolding flux_fixture_beats by (simp add: minBeatInterval_def)

text \<open>
  Claim C9. For a zero-length buffer, and for an all-silent buffer of any length whose
  sample rate is at least 20 Hz (every \<^verbatim>\<open>AudioBuffer\<close> has one of thousands of Hz; below
  20 Hz the hop is 0 samples and the analysis loop does not advance), \<^verbatim>\<open>analyze\<close>
  returns, without throwing, an analysis whose tempo is 0 and whose beat list is empty.
\<close>

theorem analyze_degrades_gracefully:
  assumes "channelData buf = [] \<or> (20 \<le> sampleRate buf \<and> (\<forall>x \<in> set (channelData buf). x = 0))"
  shows "\<exists>r. analyze buf = Some (Inr r) \<and> tempo r = 0 \<and> beats r = []"
  using assms by (rule analyze_silent)

theorem analyze_degrades_gracefully_witness:
  "(\<exists>r. analyze \<lparr>sampleRate = 44100, channelData = [], buffer_duration = 0\<rparr> = Some (Inr r) \<and>
      tempo r = 0 \<and> beats r = []) \<and>
   (\<exists>r. analyze \<lparr>sampleRate = 44100, channelData = replicate 88200 0, buffer_duration = 2\<rparr>
        = Some (Inr r) \<and>
      tempo r = 0 \<and> beats r = [])"
proof
  show "\<exists>r. analyze \<lparr>sampleRate = 44100, channelData = [], buffer_duration = 0\<rparr> = Some (Inr r) \<and>
      tempo r = 0 \<and> beats r = []"
    by (rule analyze_degrades_gracefully) simp
  show "\<exists>r. analyze \<lparr>sampleRate = 44100, channelData = replicate 88200 0, buffer_duration = 2\<rparr>
        = Some (Inr r) \<and>
      tempo r = 0 \<and> beats r = []"
    by (rule analyze_degrades_gracefully) simp
qed

end
